theory Spec2Isabelle
  imports Main "HOL-Library.Word"
begin

section \<open>Go values used by the extractor\<close>

type_synonym uint64 = "64 word"
type_synonym int64 = "64 word"
type_synonym bytes = "8 word list"

text \<open>
  A Go \<open>error\<close> value: an error made by a collaborator, or
  \<open>xerrors.Errorf("<operation>: %w", err)\<close> wrapping another one under the
  name of the operation.
\<close>

datatype error = New string | Errorf string error

text \<open>
  A Go call either returns its results or panics; a panic unwinds the call and is not
  one of the declared results.
\<close>

datatype 'a go = Return 'a | Panic string

text \<open>The message of the runtime panic of a method call through a nil interface.\<close>

definition nil_dereference :: string where
  "nil_dereference = ''runtime error: invalid memory address or nil pointer dereference''"

subsection \<open>Sector sets (go-bitfield)\<close>

text \<open>
  Modelled from the spec: the Sector Set, which is the \<open>go-bitfield\<close> library
  and not part of these files. A bit field holds run-length encoded bytes that are decoded
  when the field is used: it is either a set of sector numbers, or bytes that fail to
  decode, and then every use returns the decoding error.
\<close>

datatype BitField = BitField "error + uint64 set"

text \<open>
  Modelled from the spec: \<open>difference(A, B)\<close> of the Sector Set
  (\<open>bitfield.SubtractBitField\<close>), the members of \<open>A\<close> that are not in
  \<open>B\<close>; neither argument is changed.
\<close>

fun SubtractBitField :: "BitField \<Rightarrow> BitField \<Rightarrow> error + BitField" where
  "SubtractBitField (BitField (Inl e)) b = Inl e"
| "SubtractBitField (BitField (Inr A)) (BitField (Inl e)) = Inl e"
| "SubtractBitField (BitField (Inr A)) (BitField (Inr B)) = Inr (BitField (Inr (A - B)))"

text \<open>
  Modelled from the spec: \<open>forEach\<close> of the Sector Set
  (\<open>BitField.ForEach\<close>), which calls its callback on every member in ascending
  order. The callback of the extractor never fails, so the iteration is given by the
  list of the members it visits, or by the decoding error.
\<close>

fun ForEach :: "BitField \<Rightarrow> error + uint64 list" where
  "ForEach (BitField (Inl e)) = Inl e"
| "ForEach (BitField (Inr A)) = Inr (sorted_list_of_set A)"

subsection \<open>The miner actor's state interface\<close>

text \<open>
  Modelled from the spec: \<open>miner.Partition\<close>, \<open>miner.Deadline\<close> and
  \<open>miner.State\<close>, declared in the package of the versioned state adapter and not
  in these files. They are interfaces (the common query interface that every protocol
  version implements); the extractor calls the methods below. A value of these types is
  an implementation, given by what its methods return; the nil interface is
  \<open>None\<close> where it can occur.
\<close>

record Partition =
  AllSectors :: "error + BitField"

text \<open>
  \<open>ForEachPartition\<close> hands every (index, partition) pair of the deadline to its
  callback, and returns an error of its own when reading the deadline fails.
\<close>

record Deadline =
  ForEachPartition_visits :: "(uint64 \<times> Partition) list"
  ForEachPartition_err :: "error option"

record DeadlineInfo =
  Index :: uint64

record State =
  DeadlineInfo :: "int64 \<Rightarrow> error + DeadlineInfo"
  LoadDeadline :: "uint64 \<Rightarrow> error + Deadline"

subsection \<open>Executed messages\<close>

text \<open>
  Modelled from the spec: the types below are declared in other packages
  (\<open>address\<close>, \<open>cid\<close>, \<open>types\<close>, \<open>lens\<close>, \<open>miner\<close>,
  \<open>actorstate\<close>, \<open>minermodel\<close>). An executed message has a recipient, a
  method number, encoded parameters and an execution receipt; a derived record has a height,
  a miner address, a sector and the hash of the submitting transaction. The fields are
  those the extractor reads and writes. An address and a content identifier are given by
  their \<open>String()\<close> form.
\<close>

datatype Address = MkAddress (Address_String: string)

datatype Cid = MkCid (Cid_String: string)

record Message =
  To :: Address
  Method :: uint64
  Params :: bytes

record MessageReceipt =
  ExitCode :: int64

text \<open>
  Modelled from the spec: the receipt's success or failure code
  (\<open>exitcode.ExitCode.IsError\<close>); code 0 is success.
\<close>

definition IsError :: "int64 \<Rightarrow> bool" where
  "IsError x = (x \<noteq> 0)"

text \<open>The receipt is a pointer: \<open>None\<close> is the nil receipt.\<close>

fun receipt_failed :: "MessageReceipt option \<Rightarrow> bool" where
  "receipt_failed None = True"
| "receipt_failed (Some r) = IsError (ExitCode r)"

record ExecutedMessage =
  Cid :: Cid
  Message :: Message
  Receipt :: "MessageReceipt option"

record PoStPartition =
  PoSt_Index :: uint64
  Skipped :: BitField

record SubmitWindowedPoStParams =
  Partitions :: "PoStPartition list"

record TipSet =
  Height :: int64

record ActorInfo =
  Address :: Address
  Current :: TipSet
  Executed :: TipSet

record MinerStateExtractionContext =
  HasPreviousState :: bool
  PrevState :: State
  PrevTs :: TipSet

record MinerSectorPost =
  Post_Height :: int64
  MinerID :: string
  SectorID :: uint64
  PostMessageCID :: string

text \<open>
  \<open>model.Persistable\<close> is an interface: the nil interface, or a
  \<open>MinerSectorPostList\<close>, which is not nil even when the list has no element.
\<close>

datatype Persistable = Nil_Persistable | MinerSectorPostList "MinerSectorPost list"

subsection \<open>Collaborators\<close>

text \<open>
  The functions the extractor calls that are defined elsewhere are parameters: the
  constructor of the extraction context, the node's message lookup and the CBOR decoder
  of \<open>SubmitWindowedPoStParams\<close>. \<open>HasPreviousState\<close> is a method of the
  context and is given by the context value.
\<close>

record Collaborators =
  NewMinerStateExtractionContext :: "ActorInfo \<Rightarrow> error + MinerStateExtractionContext"
  ExecutedAndBlockMessages :: "TipSet \<Rightarrow> TipSet \<Rightarrow> error + ExecutedMessage list"
  UnmarshalCBOR :: "bytes \<Rightarrow> error + SubmitWindowedPoStParams"

text \<open>
  The calls one extraction makes to its collaborators and to \<open>loadPartitions\<close>,
  in order, each with its arguments.
\<close>

datatype event =
    CallExecutedAndBlockMessages TipSet TipSet
  | CallUnmarshalCBOR bytes
  | CallLoadPartitions State int64

section \<open>PoStExtractor.Extract\<close>

text \<open>
  The variables the closures of \<open>Extract\<close> share: \<open>posts\<close>,
  \<open>partitions\<close> (\<open>None\<close> is the nil map) and the calls made so far.
\<close>

record closure =
  posts :: "MinerSectorPost list"
  partitions :: "(uint64 \<rightharpoonup> Partition) option"
  calls :: "event list"

fun fill_pmap :: "(uint64 \<times> Partition) list \<Rightarrow> (uint64 \<rightharpoonup> Partition) \<Rightarrow> (uint64 \<rightharpoonup> Partition)" where
  "fill_pmap [] pmap = pmap"
| "fill_pmap ((idx, p) # rest) pmap = fill_pmap rest (pmap(idx \<mapsto> p))"

definition loadPartitions :: "State \<Rightarrow> int64 \<Rightarrow> error + (uint64 \<rightharpoonup> Partition)" where
  "loadPartitions state epoch =
     (case DeadlineInfo state epoch of
        Inl err \<Rightarrow> Inl (Errorf ''deadline info'' err)
      | Inr info \<Rightarrow>
          (case LoadDeadline state (Index info) of
             Inl err \<Rightarrow> Inl (Errorf ''load deadline'' err)
           | Inr dline \<Rightarrow>
               (let pmap = fill_pmap (ForEachPartition_visits dline) Map.empty in
                (case ForEachPartition_err dline of
                   Some err \<Rightarrow> Inl (Errorf ''foreach partition'' err)
                 | None \<Rightarrow> Inr pmap))))"

text \<open>
  The loop over \<open>params.Partitions\<close>. Indexing the map at an absent key gives the
  nil interface, and the call of \<open>AllSectors\<close> on it panics.
\<close>

fun partitions_loop ::
  "(uint64 \<rightharpoonup> Partition) \<Rightarrow> PoStPartition list \<Rightarrow> uint64 list \<Rightarrow> (error + uint64 list) go" where
  "partitions_loop pmap [] sectors = Return (Inr sectors)"
| "partitions_loop pmap (p # ps) sectors =
     (case pmap (PoSt_Index p) of
        None \<Rightarrow> Panic nil_dereference
      | Some part \<Rightarrow>
          (case AllSectors part of
             Inl err \<Rightarrow> Return (Inl (Errorf ''all sectors'' err))
           | Inr all \<Rightarrow>
               (case SubtractBitField all (Skipped p) of
                  Inl err \<Rightarrow> Return (Inl (Errorf ''subtract skipped bitfield'' err))
                | Inr proven \<Rightarrow>
                    (case ForEach proven of
                       Inl err \<Rightarrow> Return (Inl (Errorf ''foreach proven'' err))
                     | Inr visited \<Rightarrow> partitions_loop pmap ps (sectors @ visited)))))"

definition new_post :: "MinerStateExtractionContext \<Rightarrow> string \<Rightarrow> ExecutedMessage \<Rightarrow> uint64 \<Rightarrow> MinerSectorPost" where
  "new_post ec addr msg s =
     \<lparr>Post_Height = Height (PrevTs ec), MinerID = addr, SectorID = s,
      PostMessageCID = Cid_String (Cid msg)\<rparr>"

text \<open>
  \<open>processPostMsg\<close> returns the closure's error (\<open>None\<close> is nil) or panics, and
  leaves the shared variables as the second component.
\<close>

definition processPostMsg ::
  "Collaborators \<Rightarrow> MinerStateExtractionContext \<Rightarrow> string \<Rightarrow> ExecutedMessage \<Rightarrow> closure
     \<Rightarrow> error option go \<times> closure" where
  "processPostMsg env ec addr msg c =
     (if receipt_failed (Receipt msg) then (Return None, c)
      else
        (let c1 = c\<lparr>calls := calls c @ [CallUnmarshalCBOR (Params (Message msg))]\<rparr> in
        (case UnmarshalCBOR env (Params (Message msg)) of
          Inl err \<Rightarrow> (Return (Some (Errorf ''unmarshal post params'' err)), c1)
        | Inr params \<Rightarrow>
            (let (loaded, c2) =
               (case partitions c1 of
                  Some pmap \<Rightarrow> (Inr pmap, c1)
                | None \<Rightarrow>
                    (let c' = c1\<lparr>calls := calls c1 @ [CallLoadPartitions (PrevState ec) (Height (PrevTs ec))]\<rparr> in
                     (case loadPartitions (PrevState ec) (Height (PrevTs ec)) of
                        Inl err \<Rightarrow> (Inl (Errorf ''load partitions'' err), c')
                      | Inr pmap \<Rightarrow> (Inr pmap, c'\<lparr>partitions := Some pmap\<rparr>))))
             in (case loaded of
                  Inl err \<Rightarrow> (Return (Some err), c2)
                | Inr pmap \<Rightarrow>
                    (case partitions_loop pmap (Partitions params) [] of
                       Panic s \<Rightarrow> (Panic s, c2)
                     | Return (Inl err) \<Rightarrow> (Return (Some err), c2)
                     | Return (Inr sectors) \<Rightarrow>
                         (Return None, c2\<lparr>posts := posts c2 @ map (new_post ec addr msg) sectors\<rparr>)))))))"

text \<open>The loop over \<open>tsMsgs.Executed\<close>, with the results of \<open>Extract\<close>.\<close>

fun executed_loop ::
  "Collaborators \<Rightarrow> MinerStateExtractionContext \<Rightarrow> ActorInfo \<Rightarrow> ExecutedMessage list \<Rightarrow> closure
     \<Rightarrow> (Persistable \<times> error option) go \<times> closure" where
  "executed_loop env ec a [] c = (Return (MinerSectorPostList (posts c), None), c)"
| "executed_loop env ec a (msg # msgs) c =
     (if To (Message msg) = Address a \<and> Method (Message msg) = 5 then
        (case processPostMsg env ec (Address_String (Address a)) msg c of
           (Panic s, c') \<Rightarrow> (Panic s, c')
         | (Return (Some err), c') \<Rightarrow> (Return (Nil_Persistable, Some (Errorf ''process post msg'' err)), c')
         | (Return None, c') \<Rightarrow> executed_loop env ec a msgs c')
      else executed_loop env ec a msgs c)"

definition Extract :: "Collaborators \<Rightarrow> ActorInfo \<Rightarrow> (Persistable \<times> error option) go \<times> event list" where
  "Extract env a =
     (case NewMinerStateExtractionContext env a of
        Inl err \<Rightarrow> (Return (Nil_Persistable, Some (Errorf ''creating miner state extraction context'' err)), [])
      | Inr ec \<Rightarrow>
          (if \<not> HasPreviousState ec then (Return (Nil_Persistable, None), [])
           else
             (let c = \<lparr>posts = [], partitions = None,
                       calls = [CallExecutedAndBlockMessages (Current a) (Executed a)]\<rparr> in
              (case ExecutedAndBlockMessages env (Current a) (Executed a) of
                 Inl err \<Rightarrow>
                   (Return (Nil_Persistable, Some (Errorf ''getting executed and block messages'' err)), calls c)
               | Inr executed \<Rightarrow>
                   (case executed_loop env ec a executed c of (r, c') \<Rightarrow> (r, calls c'))))))"

text \<open>The condition under which \<open>Extract\<close> hands a message to \<open>processPostMsg\<close>.\<close>

definition qualifies :: "ActorInfo \<Rightarrow> ExecutedMessage \<Rightarrow> bool" where
  "qualifies a msg = (To (Message msg) = Address a \<and> Method (Message msg) = 5)"

text \<open>The shared variables when the loop over the executed messages starts.\<close>

definition closure0 :: "ActorInfo \<Rightarrow> closure" where
  "closure0 a = \<lparr>posts = [], partitions = None,
                 calls = [CallExecutedAndBlockMessages (Current a) (Executed a)]\<rparr>"

fun is_load :: "event \<Rightarrow> bool" where
  "is_load (CallLoadPartitions s h) = True"
| "is_load e = False"

section \<open>The datacap actor, version 9\<close>

subsection \<open>The verified-client map\<close>

text \<open>
  The hash function of a map: \<open>crypto/sha256\<close> in these files, a parameter here.
\<close>

type_synonym hash_function = "bytes \<Rightarrow> bytes"

text \<open>
  Modelled from the spec: the Verified-Client Map, a hash-indexed associative structure
  whose bit-width and hash function are configuration. It is the HAMT of the libraries
  \<open>go-hamt-ipld\<close> and \<open>adt\<close>, which are not part of these files. The bits of a
  hashed key are read most significant bit first.
\<close>

definition bits_of_byte :: "8 word \<Rightarrow> bool list" where
  "bits_of_byte w = map (bit w) [7, 6, 5, 4, 3, 2, 1, 0]"

text \<open>Modelled from the spec: the index that a group of hash bits selects.\<close>

definition index_of_bits :: "bool list \<Rightarrow> nat" where
  "index_of_bits bs = foldl (\<lambda>n b. 2 * n + (if b then 1 else 0)) 0 bs"

text \<open>Modelled from the spec: the hash bits cut into groups of bit-width bits.\<close>

function chunk_bits :: "nat \<Rightarrow> bool list \<Rightarrow> bool list list" where
  "chunk_bits w bs = (if w = 0 \<or> length bs < w then [] else take w bs # chunk_bits w (drop w bs))"
  by pat_completeness auto
termination
  by (relation "measure (\<lambda>(w, bs). length bs)") auto

text \<open>
  Modelled from the spec: the indexes under which a key is stored, a function of the
  bit-width and of the hash function.
\<close>

definition hash_path :: "int \<Rightarrow> hash_function \<Rightarrow> bytes \<Rightarrow> nat list" where
  "hash_path bitwidth h key =
     (if bitwidth \<le> 0 then []
      else map index_of_bits (chunk_bits (nat bitwidth) (concat (map bits_of_byte (h key)))))"

text \<open>
  Modelled from the spec: a node of the hash-indexed structure, with the entries stored at
  the node and the child nodes by index.
\<close>

datatype 'v hamt_node = HamtNode "(bytes \<times> 'v) list" "nat \<Rightarrow> 'v hamt_node option"

text \<open>Modelled from the spec: the node of the empty map.\<close>

definition empty_node :: "'v hamt_node" where
  "empty_node = HamtNode [] (\<lambda>i. None)"

text \<open>Modelled from the spec: storing an entry among the entries of a node.\<close>

fun bucket_set :: "bytes \<Rightarrow> 'v \<Rightarrow> (bytes \<times> 'v) list \<Rightarrow> (bytes \<times> 'v) list" where
  "bucket_set k v [] = [(k, v)]"
| "bucket_set k v ((k', v') # kvs) = (if k' = k then (k, v) # kvs else (k', v') # bucket_set k v kvs)"

text \<open>Modelled from the spec: looking a key up among the entries of a node.\<close>

fun bucket_find :: "bytes \<Rightarrow> (bytes \<times> 'v) list \<Rightarrow> 'v option" where
  "bucket_find k [] = None"
| "bucket_find k ((k', v') # kvs) = (if k' = k then Some v' else bucket_find k kvs)"

text \<open>Modelled from the spec: storing an entry under the indexes of its hashed key.\<close>

fun node_set :: "nat list \<Rightarrow> bytes \<Rightarrow> 'v \<Rightarrow> 'v hamt_node \<Rightarrow> 'v hamt_node" where
  "node_set [] k v (HamtNode kvs links) = HamtNode (bucket_set k v kvs) links"
| "node_set (i # path) k v (HamtNode kvs links) =
     HamtNode kvs
       (links(i \<mapsto> node_set path k v (case links i of None \<Rightarrow> empty_node | Some child \<Rightarrow> child)))"

text \<open>Modelled from the spec: looking a key up under the indexes of its hashed key.\<close>

fun node_find :: "nat list \<Rightarrow> bytes \<Rightarrow> 'v hamt_node \<Rightarrow> 'v option" where
  "node_find [] k (HamtNode kvs links) = bucket_find k kvs"
| "node_find (i # path) k (HamtNode kvs links) =
     (case links i of None \<Rightarrow> None | Some child \<Rightarrow> node_find path k child)"

text \<open>
  Modelled from the spec: the content-addressed object store (\<open>adt.Store\<close>), here
  holding the nodes of maps.
\<close>

type_synonym Store = "Cid \<rightharpoonup> int hamt_node"

text \<open>
  Modelled from the spec: an opened map (\<open>adt.Map\<close>), the root node with the
  bit-width and the hash function it was opened with.
\<close>

record adt_Map =
  map_root :: "int hamt_node"
  map_bitwidth :: int
  map_hash :: hash_function

text \<open>Modelled from the spec: \<open>Map.Put\<close>, which inserts with the map's own configuration.\<close>

definition Map_Put :: "adt_Map \<Rightarrow> bytes \<Rightarrow> int \<Rightarrow> adt_Map" where
  "Map_Put m k v =
     m\<lparr>map_root := node_set (hash_path (map_bitwidth m) (map_hash m) k) k v (map_root m)\<rparr>"

text \<open>
  Modelled from the spec: the single-key lookup in a root node opened with a given
  bit-width and hash function; it returns (present, allowance).
\<close>

definition hamt_Find :: "int \<Rightarrow> hash_function \<Rightarrow> int hamt_node \<Rightarrow> bytes \<Rightarrow> bool \<times> int" where
  "hamt_Find bitwidth h root k =
     (case node_find (hash_path bitwidth h k) k root of
        None \<Rightarrow> (False, 0)
      | Some v \<Rightarrow> (True, v))"

text \<open>
  Modelled from the spec: \<open>adt9.AsMap\<close>, which opens the map stored under a root
  with the given bit-width and the hash function of version 9.
\<close>

definition AsMap :: "hash_function \<Rightarrow> Store \<Rightarrow> Cid \<Rightarrow> int \<Rightarrow> error + adt_Map" where
  "AsMap sha256 st root bitwidth =
     (case st root of
        None \<Rightarrow> Inl (New ''not found'')
      | Some node \<Rightarrow> Inr \<lparr>map_root = node, map_bitwidth = bitwidth, map_hash = sha256\<rparr>)"

subsection \<open>The state of the actor\<close>

text \<open>
  Modelled from the spec: the raw state layout of version 9
  (\<open>datacap9.State\<close> with its token state), declared in \<open>go-state-types\<close>.
\<close>

record TokenState =
  Supply :: int
  Balances :: Cid
  Allowances :: Cid
  HamtBitWidth :: uint64

record datacap9_State =
  Governor :: Address
  Token :: TokenState

text \<open>
  Modelled from the spec: \<open>datacap9.ConstructState\<close>, which builds the empty
  snapshot: it stores the empty map and records the bit-width next to its root. The
  content address of a node is a parameter.
\<close>

definition ConstructState ::
  "(int hamt_node \<Rightarrow> Cid) \<Rightarrow> Store \<Rightarrow> Address \<Rightarrow> uint64 \<Rightarrow> error + datacap9_State \<times> Store" where
  "ConstructState cid_of st governor bitwidth =
     (let emptyMapCid = cid_of empty_node in
      Inr (\<lparr>Governor = governor,
            Token = \<lparr>Supply = 0, Balances = emptyMapCid, Allowances = emptyMapCid,
                     HamtBitWidth = bitwidth\<rparr>\<rparr>,
           st(emptyMapCid \<mapsto> empty_node)))"

text \<open>\<open>state9\<close> embeds the raw state and holds the store.\<close>

record state9 =
  embedded_State :: datacap9_State
  store :: Store

text \<open>
  \<open>make9\<close> hands the store to \<open>ConstructState\<close>, which writes the empty map
  into it; the state keeps that store.
\<close>

definition make9 ::
  "(int hamt_node \<Rightarrow> Cid) \<Rightarrow> Store \<Rightarrow> Address \<Rightarrow> uint64 \<Rightarrow> error + state9" where
  "make9 cid_of st governor bitwidth =
     (case ConstructState cid_of st governor bitwidth of
        Inl err \<Rightarrow> Inl err
      | Inr (s, st') \<Rightarrow> Inr \<lparr>embedded_State = s, store = st'\<rparr>)"

text \<open>
  \<open>VerifiedClients\<close> opens the map under \<open>Token.Balances\<close> with
  \<open>int(Token.HamtBitWidth)\<close>; the first argument is the SHA-256 function that
  \<open>adt9.AsMap\<close> hashes with.
\<close>

definition VerifiedClients :: "hash_function \<Rightarrow> state9 \<Rightarrow> error + adt_Map" where
  "VerifiedClients sha256 s =
     AsMap sha256 (store s) (Balances (Token (embedded_State s)))
       (sint (HamtBitWidth (Token (embedded_State s))))"

definition VerifiedClientsMapBitWidth :: "state9 \<Rightarrow> int" where
  "VerifiedClientsMapBitWidth s = sint (HamtBitWidth (Token (embedded_State s)))"

definition VerifiedClientsMapHashFunction :: "hash_function \<Rightarrow> state9 \<Rightarrow> hash_function" where
  "VerifiedClientsMapHashFunction sha256 s = (\<lambda>input. sha256 input)"

subsection \<open>The code identifier\<close>

text \<open>
  The package \<open>actors\<close> is not part of these files: its lookup table
  \<open>GetActorCodeID\<close> and its constants are parameters.
\<close>

record actors =
  GetActorCodeID :: "int \<Rightarrow> string \<Rightarrow> Cid \<times> bool"
  Version9 :: int
  DatacapKey :: string

text \<open>The verb \<open>%d\<close> of \<open>fmt\<close>: an integer in decimal.\<close>

definition digit_char :: "nat \<Rightarrow> char" where
  "digit_char d = ''0123456789'' ! d"

function decimal :: "nat \<Rightarrow> string" where
  "decimal n = (if n < 10 then [digit_char n] else decimal (n div 10) @ [digit_char (n mod 10)])"
  by pat_completeness auto
termination
  by (relation "measure (\<lambda>n. n)") auto

definition format_d :: "int \<Rightarrow> string" where
  "format_d i = (if i < 0 then ''-'' @ decimal (nat (- i)) else decimal (nat i))"

definition ActorKey :: "actors \<Rightarrow> state9 \<Rightarrow> string" where
  "ActorKey pkg s = DatacapKey pkg"

definition ActorVersion :: "actors \<Rightarrow> state9 \<Rightarrow> int" where
  "ActorVersion pkg s = Version9 pkg"

definition Code :: "actors \<Rightarrow> state9 \<Rightarrow> Cid go" where
  "Code pkg s =
     (case GetActorCodeID pkg (ActorVersion pkg s) (ActorKey pkg s) of
        (code, ok) \<Rightarrow>
          if \<not> ok then
            Panic (''didn't find actor '' @ ActorKey pkg s @ '' code id for actor version ''
                     @ format_d (ActorVersion pkg s))
          else Return code)"

section \<open>What the specification says of the emitted records\<close>

text \<open>The members of a bit field that decodes.\<close>

definition sector_set :: "BitField \<Rightarrow> uint64 set" where
  "sector_set b = (case b of BitField (Inl e) \<Rightarrow> {} | BitField (Inr A) \<Rightarrow> A)"

text \<open>The full sector set of the partition with a given index.\<close>

definition fullSectors :: "(uint64 \<rightharpoonup> Partition) \<Rightarrow> uint64 \<Rightarrow> uint64 set" where
  "fullSectors pmap idx =
     (case pmap idx of
        None \<Rightarrow> {}
      | Some part \<Rightarrow> (case AllSectors part of Inl e \<Rightarrow> {} | Inr all \<Rightarrow> sector_set all))"

text \<open>\<open>provenSectors = difference(fullSectors, skipped)\<close>.\<close>

definition provenSectors :: "(uint64 \<rightharpoonup> Partition) \<Rightarrow> PoStPartition \<Rightarrow> uint64 set" where
  "provenSectors pmap p = fullSectors pmap (PoSt_Index p) - sector_set (Skipped p)"

text \<open>
  The map from partition index to partition, evaluated against the previous state at the
  previous tipset's height.
\<close>

definition previous_partitions :: "MinerStateExtractionContext \<Rightarrow> (uint64 \<rightharpoonup> Partition)" where
  "previous_partitions ec =
     (case loadPartitions (PrevState ec) (Height (PrevTs ec)) of
        Inl e \<Rightarrow> Map.empty
      | Inr pmap \<Rightarrow> pmap)"

text \<open>
  A derived record: the previous tipset's height, the miner's address, the sector and the
  hash of the transaction.
\<close>

definition derived_record ::
  "MinerStateExtractionContext \<Rightarrow> ActorInfo \<Rightarrow> ExecutedMessage \<Rightarrow> uint64 \<Rightarrow> MinerSectorPost" where
  "derived_record ec a msg s =
     \<lparr>Post_Height = Height (PrevTs ec), MinerID = Address_String (Address a), SectorID = s,
      PostMessageCID = Cid_String (Cid msg)\<rparr>"

text \<open>One record per proven sector of a (partition index, skipped set) pair, in ascending order.\<close>

definition records_of_pair ::
  "MinerStateExtractionContext \<Rightarrow> ActorInfo \<Rightarrow> ExecutedMessage \<Rightarrow> PoStPartition \<Rightarrow> MinerSectorPost list" where
  "records_of_pair ec a msg p =
     map (derived_record ec a msg) (sorted_list_of_set (provenSectors (previous_partitions ec) p))"

definition records_of_message ::
  "Collaborators \<Rightarrow> MinerStateExtractionContext \<Rightarrow> ActorInfo \<Rightarrow> ExecutedMessage \<Rightarrow> MinerSectorPost list" where
  "records_of_message env ec a msg =
     (case UnmarshalCBOR env (Params (Message msg)) of
        Inl e \<Rightarrow> []
      | Inr params \<Rightarrow> concat (map (records_of_pair ec a msg) (Partitions params)))"

text \<open>A qualifying transaction whose receipt reports success.\<close>

definition successful :: "ActorInfo \<Rightarrow> ExecutedMessage \<Rightarrow> bool" where
  "successful a msg = (qualifies a msg \<and> \<not> receipt_failed (Receipt msg))"

text \<open>
  A transaction resolves when its parameters decode and every partition index it names is
  in the partition map, with a full sector set and a skipped set that decode.
\<close>

definition decodes :: "BitField \<Rightarrow> bool" where
  "decodes b = (case b of BitField (Inl e) \<Rightarrow> False | BitField (Inr A) \<Rightarrow> True)"

definition pair_resolves :: "(uint64 \<rightharpoonup> Partition) \<Rightarrow> PoStPartition \<Rightarrow> bool" where
  "pair_resolves pmap p =
     (case pmap (PoSt_Index p) of
        None \<Rightarrow> False
      | Some part \<Rightarrow>
          (case AllSectors part of
             Inl e \<Rightarrow> False
           | Inr all \<Rightarrow> decodes all \<and> decodes (Skipped p)))"

definition message_resolves :: "Collaborators \<Rightarrow> MinerStateExtractionContext \<Rightarrow> ExecutedMessage \<Rightarrow> bool" where
  "message_resolves env ec msg =
     (case UnmarshalCBOR env (Params (Message msg)) of
        Inl e \<Rightarrow> False
      | Inr params \<Rightarrow> list_all (pair_resolves (previous_partitions ec)) (Partitions params))"

text \<open>
  The partition map that the closures hold is nil or the one loaded from the previous state
  at the previous tipset's height.
\<close>

definition partitions_from_previous :: "MinerStateExtractionContext \<Rightarrow> closure \<Rightarrow> bool" where
  "partitions_from_previous ec c =
     (case partitions c of
        None \<Rightarrow> True
      | Some pmap \<Rightarrow> loadPartitions (PrevState ec) (Height (PrevTs ec)) = Inr pmap)"

section \<open>What the specification says of the lookups\<close>

text \<open>
  The map from partition index to partition, read from a state at an epoch: the partitions
  of the deadline that the state names for the epoch. Where the deadline hands an index out
  twice, the later partition is the one of the index.
\<close>

definition deadline_partition_map :: "State \<Rightarrow> int64 \<Rightarrow> error + (uint64 \<rightharpoonup> Partition)" where
  "deadline_partition_map state epoch =
     (case DeadlineInfo state epoch of
        Inl err \<Rightarrow> Inl (Errorf ''deadline info'' err)
      | Inr info \<Rightarrow>
          (case LoadDeadline state (Index info) of
             Inl err \<Rightarrow> Inl (Errorf ''load deadline'' err)
           | Inr dline \<Rightarrow>
               (case ForEachPartition_err dline of
                  Some err \<Rightarrow> Inl (Errorf ''foreach partition'' err)
                | None \<Rightarrow> Inr (map_of (rev (ForEachPartition_visits dline))))))"

text \<open>
  One (partition index, skipped set) pair resolved in a partition map: the proven sectors in
  ascending order, or the error of reading the sets. Nothing is said (\<open>None\<close>) of an
  index that the map lacks.
\<close>

definition resolve_pair :: "(uint64 \<rightharpoonup> Partition) \<Rightarrow> PoStPartition \<Rightarrow> (error + uint64 list) option" where
  "resolve_pair pmap p =
     (case pmap (PoSt_Index p) of
        None \<Rightarrow> None
      | Some part \<Rightarrow>
          Some (case AllSectors part of
                  Inl err \<Rightarrow> Inl (Errorf ''all sectors'' err)
                | Inr all \<Rightarrow>
                    (case SubtractBitField all (Skipped p) of
                       Inl err \<Rightarrow> Inl (Errorf ''subtract skipped bitfield'' err)
                     | Inr proven \<Rightarrow>
                         (case ForEach proven of
                            Inl err \<Rightarrow> Inl (Errorf ''foreach proven'' err)
                          | Inr visited \<Rightarrow> Inr visited))))"

text \<open>The pairs of one transaction, resolved in order up to the first error.\<close>

fun resolve_pairs :: "(uint64 \<rightharpoonup> Partition) \<Rightarrow> PoStPartition list \<Rightarrow> (error + uint64 list) option" where
  "resolve_pairs pmap [] = Some (Inr [])"
| "resolve_pairs pmap (p # ps) =
     (case resolve_pair pmap p of
        None \<Rightarrow> None
      | Some (Inl err) \<Rightarrow> Some (Inl err)
      | Some (Inr proven) \<Rightarrow>
          (case resolve_pairs pmap ps of
             None \<Rightarrow> None
           | Some (Inl err) \<Rightarrow> Some (Inl err)
           | Some (Inr further) \<Rightarrow> Some (Inr (proven @ further))))"

text \<open>
  One transaction evaluated against the previous state at the previous tipset's height:
  every lookup is made in the partition map read from that state at that height, read
  afresh for the transaction.
\<close>

definition transaction_against_previous ::
  "Collaborators \<Rightarrow> MinerStateExtractionContext \<Rightarrow> ActorInfo \<Rightarrow> ExecutedMessage
     \<Rightarrow> (error + MinerSectorPost list) option" where
  "transaction_against_previous env ec a msg =
     (if receipt_failed (Receipt msg) then Some (Inr [])
      else
        (case UnmarshalCBOR env (Params (Message msg)) of
           Inl err \<Rightarrow> Some (Inl (Errorf ''unmarshal post params'' err))
         | Inr params \<Rightarrow>
             (case deadline_partition_map (PrevState ec) (Height (PrevTs ec)) of
                Inl err \<Rightarrow> Some (Inl (Errorf ''load partitions'' err))
              | Inr pmap \<Rightarrow>
                  (case resolve_pairs pmap (Partitions params) of
                     None \<Rightarrow> None
                   | Some (Inl err) \<Rightarrow> Some (Inl err)
                   | Some (Inr sectors) \<Rightarrow> Some (Inr (map (derived_record ec a msg) sectors))))))"

text \<open>
  The executed messages of one call, each qualifying transaction evaluated against the
  previous state at the previous tipset's height, up to the first error.
\<close>

fun transactions_against_previous ::
  "Collaborators \<Rightarrow> MinerStateExtractionContext \<Rightarrow> ActorInfo \<Rightarrow> ExecutedMessage list
     \<Rightarrow> (error + MinerSectorPost list) option" where
  "transactions_against_previous env ec a [] = Some (Inr [])"
| "transactions_against_previous env ec a (msg # msgs) =
     (if qualifies a msg then
        (case transaction_against_previous env ec a msg of
           None \<Rightarrow> None
         | Some (Inl err) \<Rightarrow> Some (Inl (Errorf ''process post msg'' err))
         | Some (Inr records) \<Rightarrow>
             (case transactions_against_previous env ec a msgs of
                None \<Rightarrow> None
              | Some (Inl err) \<Rightarrow> Some (Inl err)
              | Some (Inr further) \<Rightarrow> Some (Inr (records @ further))))
      else transactions_against_previous env ec a msgs)"

text \<open>The results of a call: the nil result with the error, or the records with no error.\<close>

definition result_of :: "error + MinerSectorPost list \<Rightarrow> Persistable \<times> error option" where
  "result_of r = (case r of Inl err \<Rightarrow> (Nil_Persistable, Some err)
                          | Inr records \<Rightarrow> (MinerSectorPostList records, None))"

text \<open>
  The partition map that the closures hold is nil or the map read from the previous state
  at the previous tipset's height.
\<close>

definition holds_previous_partitions :: "MinerStateExtractionContext \<Rightarrow> closure \<Rightarrow> bool" where
  "holds_previous_partitions ec c =
     (case partitions c of
        None \<Rightarrow> True
      | Some pmap \<Rightarrow> deadline_partition_map (PrevState ec) (Height (PrevTs ec)) = Inr pmap)"

section \<open>Example values\<close>

definition example_partition :: Partition where
  "example_partition = \<lparr>AllSectors = Inr (BitField (Inr {1, 2, 3}))\<rparr>"

definition example_state :: State where
  "example_state =
     \<lparr>DeadlineInfo = (\<lambda>epoch. Inr \<lparr>Index = 0\<rparr>),
      LoadDeadline = (\<lambda>idx. Inr \<lparr>ForEachPartition_visits = [(0, example_partition)],
                                 ForEachPartition_err = None\<rparr>)\<rparr>"

definition failing_state :: State where
  "failing_state =
     \<lparr>DeadlineInfo = (\<lambda>epoch. Inl (New ''no deadline'')),
      LoadDeadline = (\<lambda>idx. Inl (New ''no deadline''))\<rparr>"

definition example_ec :: "bool \<Rightarrow> State \<Rightarrow> MinerStateExtractionContext" where
  "example_ec prev st = \<lparr>HasPreviousState = prev, PrevState = st, PrevTs = \<lparr>Height = 99\<rparr>\<rparr>"

definition example_actor :: ActorInfo where
  "example_actor = \<lparr>Address = MkAddress ''f01000'', Current = \<lparr>Height = 100\<rparr>, Executed = \<lparr>Height = 99\<rparr>\<rparr>"

definition example_msg :: "bytes \<Rightarrow> int64 \<Rightarrow> ExecutedMessage" where
  "example_msg b code =
     \<lparr>Cid = MkCid ''bafy2post'',
      Message = \<lparr>To = MkAddress ''f01000'', Method = 5, Params = b\<rparr>,
      Receipt = Some \<lparr>ExitCode = code\<rparr>\<rparr>"

text \<open>
  A decoder for the examples: \<open>[1]\<close> is partition 0 with sector 2 skipped,
  \<open>[2]\<close> names partition 7, \<open>[3]\<close> is the empty partition list and every other
  input is malformed.
\<close>

definition example_decoder :: "bytes \<Rightarrow> error + SubmitWindowedPoStParams" where
  "example_decoder b =
     (if b = [1] then Inr \<lparr>Partitions = [\<lparr>PoSt_Index = 0, Skipped = BitField (Inr {2})\<rparr>]\<rparr>
      else if b = [2] then Inr \<lparr>Partitions = [\<lparr>PoSt_Index = 7, Skipped = BitField (Inr {})\<rparr>]\<rparr>
      else if b = [3] then Inr \<lparr>Partitions = []\<rparr>
      else Inl (New ''cbor input had wrong number of fields''))"

definition example_env :: "MinerStateExtractionContext \<Rightarrow> ExecutedMessage list \<Rightarrow> Collaborators" where
  "example_env ec msgs =
     \<lparr>NewMinerStateExtractionContext = (\<lambda>a. Inr ec),
      ExecutedAndBlockMessages = (\<lambda>current executed. Inr msgs),
      UnmarshalCBOR = example_decoder\<rparr>"

definition example_post :: "uint64 \<Rightarrow> MinerSectorPost" where
  "example_post s = \<lparr>Post_Height = 99, MinerID = ''f01000'', SectorID = s, PostMessageCID = ''bafy2post''\<rparr>"

definition example_state9 :: state9 where
  "example_state9 =
     \<lparr>embedded_State =
        \<lparr>Governor = MkAddress ''f06'',
         Token = \<lparr>Supply = 0, Balances = MkCid ''bafy2empty'', Allowances = MkCid ''bafy2empty'',
                  HamtBitWidth = 5\<rparr>\<rparr>,
      store = [MkCid ''bafy2empty'' \<mapsto> empty_node]\<rparr>"

definition actors_v8 :: actors where
  "actors_v8 =
     \<lparr>GetActorCodeID = (\<lambda>av name. if av = 8 \<and> name = ''datacap'' then (MkCid ''bafk2datacap8'', True)
                                   else (MkCid [], False)),
      Version9 = 9, DatacapKey = ''datacap''\<rparr>"

definition actors_v9 :: actors where
  "actors_v9 =
     \<lparr>GetActorCodeID = (\<lambda>av name. if av = 9 \<and> name = ''datacap'' then (MkCid ''bafk2datacap9'', True)
                                   else (MkCid [], False)),
      Version9 = 9, DatacapKey = ''datacap''\<rparr>"

definition example_hash :: hash_function where
  "example_hash input = rev input"

definition example_cid_of :: "int hamt_node \<Rightarrow> Cid" where
  "example_cid_of node = MkCid ''bafy2empty''"

section \<open>Lemmas\<close>

lemmas example_defs =
  example_partition_def example_state_def failing_state_def example_ec_def example_actor_def
  example_msg_def example_decoder_def example_env_def example_post_def

lemmas run_defs =
  Extract_def processPostMsg_def loadPartitions_def IsError_def new_post_def

lemma sorted_list_example: "sorted_list_of_set ({1, 2, 3} - {2 :: uint64}) = [1, 3]"
  by code_simp

subsection \<open>One message\<close>

lemma processPostMsg_failed_receipt:
  "receipt_failed (Receipt msg) \<Longrightarrow> processPostMsg env ec addr msg c = (Return None, c)"
  by (simp add: processPostMsg_def)

lemma processPostMsg_decode_error:
  "\<not> receipt_failed (Receipt msg) \<Longrightarrow> UnmarshalCBOR env (Params (Message msg)) = Inl err \<Longrightarrow>
   processPostMsg env ec addr msg c =
     (Return (Some (Errorf ''unmarshal post params'' err)),
      c\<lparr>calls := calls c @ [CallUnmarshalCBOR (Params (Message msg))]\<rparr>)"
  by (simp add: processPostMsg_def)

lemma processPostMsg_env:
  "processPostMsg (env\<lparr>ExecutedAndBlockMessages := f\<rparr>) ec addr msg c = processPostMsg env ec addr msg c"
  by (simp add: processPostMsg_def)

lemma processPostMsg_loaded:
  assumes "partitions c = Some pmap" and "processPostMsg env ec addr msg c = (r, c')"
  shows "partitions c' = Some pmap \<and>
         (calls c' = calls c \<or> calls c' = calls c @ [CallUnmarshalCBOR (Params (Message msg))])"
  using assms
  by (auto simp: processPostMsg_def Let_def split: if_splits sum.splits go.splits)

lemma processPostMsg_unloaded:
  assumes "partitions c = None" and "processPostMsg env ec addr msg c = (r, c')"
  shows "(r = Return None \<and> c' = c)
       \<or> (\<exists>err. UnmarshalCBOR env (Params (Message msg)) = Inl err \<and> partitions c' = None \<and>
            r = Return (Some (Errorf ''unmarshal post params'' err)) \<and>
            calls c' = calls c @ [CallUnmarshalCBOR (Params (Message msg))])
       \<or> (\<exists>params. UnmarshalCBOR env (Params (Message msg)) = Inr params \<and>
            calls c' = calls c @ [CallUnmarshalCBOR (Params (Message msg)),
                                  CallLoadPartitions (PrevState ec) (Height (PrevTs ec))] \<and>
            ((\<exists>err. r = Return (Some err) \<and> partitions c' = None) \<or>
             (\<exists>pmap. partitions c' = Some pmap \<and>
                     loadPartitions (PrevState ec) (Height (PrevTs ec)) = Inr pmap)))"
  using assms
  by (auto simp: processPostMsg_def Let_def split: if_splits sum.splits go.splits)

lemma processPostMsg_keeps_previous:
  assumes "partitions_from_previous ec c" and "processPostMsg env ec addr msg c = (r, c')"
  shows "partitions_from_previous ec c'"
proof (cases "partitions c")
  case None
  from processPostMsg_unloaded [OF None assms(2)] assms(1) show ?thesis
    by (auto simp: partitions_from_previous_def)
next
  case (Some pmap)
  from processPostMsg_loaded [OF Some assms(2)] assms(1) Some show ?thesis
    by (simp add: partitions_from_previous_def)
qed

lemma processPostMsg_calls:
  assumes "processPostMsg env ec addr msg c = (r, c')"
  shows "(r = Return None \<and> c' = c)
       \<or> (\<exists>e. UnmarshalCBOR env (Params (Message msg)) = Inl e \<and>
            r = Return (Some (Errorf ''unmarshal post params'' e)) \<and>
            calls c' = calls c @ [CallUnmarshalCBOR (Params (Message msg))])
       \<or> (\<exists>params. UnmarshalCBOR env (Params (Message msg)) = Inr params \<and>
            (calls c' = calls c @ [CallUnmarshalCBOR (Params (Message msg))] \<or>
             calls c' = calls c @ [CallUnmarshalCBOR (Params (Message msg)),
                                   CallLoadPartitions (PrevState ec) (Height (PrevTs ec))]))"
proof (cases "partitions c")
  case None
  from processPostMsg_unloaded [OF None assms] show ?thesis by auto
next
  case (Some pmap)
  from processPostMsg_loaded [OF Some assms]
  have cs: "calls c' = calls c \<or> calls c' = calls c @ [CallUnmarshalCBOR (Params (Message msg))]"
    by simp
  show ?thesis
  proof (cases "receipt_failed (Receipt msg)")
    case True
    with assms show ?thesis by (simp add: processPostMsg_failed_receipt)
  next
    case False
    show ?thesis
    proof (cases "UnmarshalCBOR env (Params (Message msg))")
      case (Inl e)
      from processPostMsg_decode_error [OF False Inl, of ec addr c] assms
      have "r = Return (Some (Errorf ''unmarshal post params'' e))"
        and "c' = c\<lparr>calls := calls c @ [CallUnmarshalCBOR (Params (Message msg))]\<rparr>"
        by simp_all
      with Inl show ?thesis by simp
    next
      case (Inr params)
      with assms False Some show ?thesis
        by (auto simp: processPostMsg_def Let_def split: sum.splits go.splits)
    qed
  qed
qed

subsection \<open>The loop over the executed messages\<close>

lemma executed_loop_result:
  "executed_loop env ec a xs c = (r, c') \<Longrightarrow>
     (\<exists>s. r = Panic s) \<or> (\<exists>err. r = Return (Nil_Persistable, Some err))
       \<or> r = Return (MinerSectorPostList (posts c'), None)"
proof (induction xs arbitrary: c)
  case Nil
  then show ?case by auto
next
  case (Cons m xs)
  then show ?case
    by (auto split: if_splits prod.splits go.splits option.splits)
qed

lemma executed_loop_append_ok:
  "executed_loop env ec a xs c = (Return (MinerSectorPostList ps, None), c') \<Longrightarrow>
   executed_loop env ec a (xs @ ys) c = executed_loop env ec a ys c'"
proof (induction xs arbitrary: c)
  case Nil
  then show ?case by simp
next
  case (Cons m xs)
  then show ?case
    by (auto split: if_splits prod.splits go.splits option.splits)
qed

lemma executed_loop_append_stop:
  "executed_loop env ec a xs c = (r, c') \<Longrightarrow> \<forall>ps. r \<noteq> Return (MinerSectorPostList ps, None) \<Longrightarrow>
   executed_loop env ec a (xs @ ys) c = (r, c')"
proof (induction xs arbitrary: c)
  case Nil
  then show ?case by auto
next
  case (Cons m xs)
  then show ?case
    by (auto split: if_splits prod.splits go.splits option.splits)
qed

lemma executed_loop_skip:
  "receipt_failed (Receipt msg) \<Longrightarrow>
   executed_loop env ec a (before @ msg # after) c = executed_loop env ec a (before @ after) c"
proof (induction before arbitrary: c)
  case Nil
  then show ?case by (simp add: processPostMsg_failed_receipt)
next
  case (Cons m xs)
  then show ?case
    by (simp split: if_splits prod.splits go.splits option.splits)
qed

lemma executed_loop_env:
  "executed_loop (env\<lparr>ExecutedAndBlockMessages := f\<rparr>) ec a xs c = executed_loop env ec a xs c"
  by (induction xs arbitrary: c)
     (simp_all add: processPostMsg_env split: prod.splits go.splits option.splits)

lemma Extract_loop:
  "NewMinerStateExtractionContext env a = Inr ec \<Longrightarrow> HasPreviousState ec \<Longrightarrow>
   ExecutedAndBlockMessages env (Current a) (Executed a) = Inr msgs \<Longrightarrow>
   Extract env a = (fst (executed_loop env ec a msgs (closure0 a)),
                    calls (snd (executed_loop env ec a msgs (closure0 a))))"
  by (simp add: Extract_def closure0_def split: prod.splits)

lemma Extract_env_msgs:
  "NewMinerStateExtractionContext env a = Inr ec \<Longrightarrow> HasPreviousState ec \<Longrightarrow>
   Extract (env\<lparr>ExecutedAndBlockMessages := (\<lambda>current executed. Inr msgs)\<rparr>) a =
     (fst (executed_loop env ec a msgs (closure0 a)),
      calls (snd (executed_loop env ec a msgs (closure0 a))))"
  by (simp add: Extract_def closure0_def executed_loop_env split: prod.splits)

lemma executed_loop_loaded:
  "partitions c = Some pmap \<Longrightarrow> executed_loop env ec a msgs c = (r, c') \<Longrightarrow>
   \<exists>rest. calls c' = calls c @ rest \<and> filter is_load rest = [] \<and> partitions c' = Some pmap"
proof (induction msgs arbitrary: c)
  case Nil
  then show ?case by auto
next
  case (Cons m ms)
  show ?case
  proof (cases "To (Message m) = Address a \<and> Method (Message m) = 5")
    case False
    with Cons show ?thesis by auto
  next
    case True
    obtain r1 c1 where p: "processPostMsg env ec (Address_String (Address a)) m c = (r1, c1)"
      by (cases "processPostMsg env ec (Address_String (Address a)) m c") auto
    from processPostMsg_loaded [OF Cons.prems(1) p]
    have c1: "partitions c1 = Some pmap"
      and cs: "calls c1 = calls c \<or> calls c1 = calls c @ [CallUnmarshalCBOR (Params (Message m))]"
      by auto
    show ?thesis
    proof (cases "r1 = Return None")
      case True
      with Cons.prems(2) \<open>To (Message m) = Address a \<and> Method (Message m) = 5\<close> p
      have "executed_loop env ec a ms c1 = (r, c')" by simp
      from Cons.IH [OF c1 this] obtain rest where
        "calls c' = calls c1 @ rest" "filter is_load rest = []" "partitions c' = Some pmap"
        by auto
      with cs show ?thesis by auto
    next
      case False
      with Cons.prems(2) \<open>To (Message m) = Address a \<and> Method (Message m) = 5\<close> p
      have "c' = c1" by (auto split: go.splits option.splits)
      with c1 cs show ?thesis by auto
    qed
  qed
qed

lemma executed_loop_unloaded:
  "partitions c = None \<Longrightarrow> executed_loop env ec a msgs c = (r, c') \<Longrightarrow>
   (\<exists>rest. calls c' = calls c @ rest \<and>
      (rest = [] \<or> (\<exists>b err. rest = [CallUnmarshalCBOR b] \<and> UnmarshalCBOR env b = Inl err)))
   \<or> (\<exists>b params rest. UnmarshalCBOR env b = Inr params \<and>
        calls c' = calls c @ [CallUnmarshalCBOR b, CallLoadPartitions (PrevState ec) (Height (PrevTs ec))] @ rest \<and>
        filter is_load rest = [])"
proof (induction msgs arbitrary: c)
  case Nil
  then show ?case by auto
next
  case (Cons m ms)
  show ?case
  proof (cases "To (Message m) = Address a \<and> Method (Message m) = 5")
    case False
    with Cons show ?thesis by auto
  next
    case True
    obtain r1 c1 where p: "processPostMsg env ec (Address_String (Address a)) m c = (r1, c1)"
      by (cases "processPostMsg env ec (Address_String (Address a)) m c") auto
    have step: "r1 = Return None \<Longrightarrow> executed_loop env ec a ms c1 = (r, c')"
      using Cons.prems(2) True p by simp
    have stop: "r1 \<noteq> Return None \<Longrightarrow> c' = c1"
      using Cons.prems(2) True p by (auto split: go.splits option.splits)
    from processPostMsg_unloaded [OF Cons.prems(1) p]
    consider (skip) "r1 = Return None" "c1 = c"
      | (bad) err where "UnmarshalCBOR env (Params (Message m)) = Inl err" "partitions c1 = None"
          "r1 = Return (Some (Errorf ''unmarshal post params'' err))"
          "calls c1 = calls c @ [CallUnmarshalCBOR (Params (Message m))]"
      | (loadfail) params err where "UnmarshalCBOR env (Params (Message m)) = Inr params"
          "calls c1 = calls c @ [CallUnmarshalCBOR (Params (Message m)),
                                  CallLoadPartitions (PrevState ec) (Height (PrevTs ec))]"
          "r1 = Return (Some err)"
      | (loaded) params pmap where "UnmarshalCBOR env (Params (Message m)) = Inr params"
          "calls c1 = calls c @ [CallUnmarshalCBOR (Params (Message m)),
                                  CallLoadPartitions (PrevState ec) (Height (PrevTs ec))]"
          "partitions c1 = Some pmap"
      by blast
    then show ?thesis
    proof cases
      case skip
      with step Cons.IH [of c] Cons.prems(1) show ?thesis by simp
    next
      case bad
      with stop have "c' = c1" by simp
      with bad show ?thesis by auto
    next
      case loadfail
      with stop have "c' = c1" by simp
      with loadfail show ?thesis by auto
    next
      case loaded
      show ?thesis
      proof (cases "r1 = Return None")
        case True
        from executed_loop_loaded [OF loaded(3) step [OF True]] obtain rest where
          "calls c' = calls c1 @ rest" "filter is_load rest = []" by auto
        with loaded show ?thesis by auto
      next
        case False
        with stop have "c' = c1" by simp
        with loaded show ?thesis by auto
      qed
    qed
  qed
qed

lemma executed_loop_keeps_previous:
  "partitions_from_previous ec c \<Longrightarrow> partitions_from_previous ec (snd (executed_loop env ec a msgs c))"
proof (induction msgs arbitrary: c)
  case Nil
  then show ?case by simp
next
  case (Cons m ms)
  show ?case
  proof (cases "To (Message m) = Address a \<and> Method (Message m) = 5")
    case False
    with Cons show ?thesis by auto
  next
    case True
    obtain r1 c1 where p: "processPostMsg env ec (Address_String (Address a)) m c = (r1, c1)"
      by (cases "processPostMsg env ec (Address_String (Address a)) m c") auto
    from processPostMsg_keeps_previous [OF Cons.prems p] have inv: "partitions_from_previous ec c1" .
    with Cons.IH [OF inv] True p show ?thesis
      by (auto split: go.splits option.splits)
  qed
qed

lemma executed_loop_decode_errors:
  assumes "\<forall>b. CallUnmarshalCBOR b \<in> set (calls c) \<longrightarrow> (\<exists>params. UnmarshalCBOR env b = Inr params)"
    and "executed_loop env ec a msgs c = (r, c')"
    and "CallUnmarshalCBOR b \<in> set (calls c')" and "UnmarshalCBOR env b = Inl e"
  shows "r = Return (Nil_Persistable,
                     Some (Errorf ''process post msg'' (Errorf ''unmarshal post params'' e)))"
  using assms
proof (induction msgs arbitrary: c)
  case Nil
  then show ?case by auto
next
  case (Cons m ms)
  show ?case
  proof (cases "To (Message m) = Address a \<and> Method (Message m) = 5")
    case False
    with Cons.prems(2) have "executed_loop env ec a ms c = (r, c')" by auto
    from Cons.IH [OF Cons.prems(1) this Cons.prems(3,4)] show ?thesis .
  next
    case True
    obtain r1 c1 where p: "processPostMsg env ec (Address_String (Address a)) m c = (r1, c1)"
      by (cases "processPostMsg env ec (Address_String (Address a)) m c") auto
    have step: "r1 = Return None \<Longrightarrow> executed_loop env ec a ms c1 = (r, c')"
      using Cons.prems(2) True p by simp
    have stop: "r1 \<noteq> Return None \<Longrightarrow> c' = c1"
      using Cons.prems(2) True p by (auto split: go.splits option.splits)
    from processPostMsg_calls [OF p]
    consider (skip) "r1 = Return None" "c1 = c"
      | (bad) e' where "UnmarshalCBOR env (Params (Message m)) = Inl e'"
          "r1 = Return (Some (Errorf ''unmarshal post params'' e'))"
          "calls c1 = calls c @ [CallUnmarshalCBOR (Params (Message m))]"
      | (good) params where "UnmarshalCBOR env (Params (Message m)) = Inr params"
          "calls c1 = calls c @ [CallUnmarshalCBOR (Params (Message m))] \<or>
           calls c1 = calls c @ [CallUnmarshalCBOR (Params (Message m)),
                                 CallLoadPartitions (PrevState ec) (Height (PrevTs ec))]"
      by blast
    then show ?thesis
    proof cases
      case skip
      from Cons.IH [OF Cons.prems(1) step [OF skip(1), unfolded skip(2)] Cons.prems(3,4)]
      show ?thesis .
    next
      case bad
      with stop have c': "c' = c1" by simp
      with bad Cons.prems(1,3,4) have "b = Params (Message m)" by auto
      with bad Cons.prems(4) have "e' = e" by simp
      with Cons.prems(2) True p bad show ?thesis by simp
    next
      case good
      then have inv: "\<forall>b. CallUnmarshalCBOR b \<in> set (calls c1) \<longrightarrow> (\<exists>params. UnmarshalCBOR env b = Inr params)"
        using Cons.prems(1) by auto
      show ?thesis
      proof (cases "r1 = Return None")
        case True
        from Cons.IH [OF inv step [OF True] Cons.prems(3,4)] show ?thesis .
      next
        case False
        with stop have "c' = c1" by simp
        with inv Cons.prems(3,4) show ?thesis by auto
      qed
    qed
  qed
qed

lemma Extract_decode_errors:
  assumes "CallUnmarshalCBOR b \<in> set (snd (Extract env a))" and "UnmarshalCBOR env b = Inl e"
  shows "fst (Extract env a) =
           Return (Nil_Persistable,
                   Some (Errorf ''process post msg'' (Errorf ''unmarshal post params'' e)))"
proof (cases "NewMinerStateExtractionContext env a")
  case (Inl err)
  with assms(1) show ?thesis by (simp add: Extract_def)
next
  case (Inr ec)
  show ?thesis
  proof (cases "HasPreviousState ec")
    case False
    with Inr assms(1) show ?thesis by (simp add: Extract_def)
  next
    case True
    show ?thesis
    proof (cases "ExecutedAndBlockMessages env (Current a) (Executed a)")
      case (Inl err)
      with Inr True assms(1) show ?thesis by (simp add: Extract_def)
    next
      case fetch: (Inr msgs)
      obtain r c' where run: "executed_loop env ec a msgs (closure0 a) = (r, c')"
        by (cases "executed_loop env ec a msgs (closure0 a)") auto
      have ex: "Extract env a = (r, calls c')"
        using Extract_loop [OF Inr True fetch] run by simp
      have start: "\<forall>b. CallUnmarshalCBOR b \<in> set (calls (closure0 a)) \<longrightarrow>
                     (\<exists>params. UnmarshalCBOR env b = Inr params)"
        by (simp add: closure0_def)
      from executed_loop_decode_errors [OF start run _ assms(2)] assms(1) ex show ?thesis
        by simp
    qed
  qed
qed

subsection \<open>The records of a message\<close>

lemma SubtractBitField_Inr:
  "SubtractBitField x y = Inr z \<Longrightarrow> \<exists>A B. x = BitField (Inr A) \<and> y = BitField (Inr B) \<and> z = BitField (Inr (A - B))"
  by (cases "(x, y)" rule: SubtractBitField.cases) auto

lemma partitions_loop_sectors:
  "partitions_loop pmap ps acc = Return (Inr sectors) \<Longrightarrow>
   sectors = acc @ concat (map (\<lambda>p. sorted_list_of_set (provenSectors pmap p)) ps)"
proof (induction ps arbitrary: acc)
  case Nil
  then show ?case by simp
next
  case (Cons p ps)
  from Cons.prems obtain part all proven visited where
    part: "pmap (PoSt_Index p) = Some part" and all: "AllSectors part = Inr all"
    and sub: "SubtractBitField all (Skipped p) = Inr proven"
    and vis: "ForEach proven = Inr visited"
    and rest: "partitions_loop pmap ps (acc @ visited) = Return (Inr sectors)"
    by (auto split: option.splits sum.splits)
  from SubtractBitField_Inr [OF sub] obtain A B where
    ab: "all = BitField (Inr A)" "Skipped p = BitField (Inr B)" "proven = BitField (Inr (A - B))"
    by auto
  with vis have "visited = sorted_list_of_set (A - B)" by simp
  moreover have "provenSectors pmap p = A - B"
    using part all ab by (simp add: provenSectors_def fullSectors_def sector_set_def)
  ultimately show ?case using Cons.IH [OF rest] by simp
qed

lemma partitions_loop_all_skipped:
  assumes "pmap (PoSt_Index p) = Some part" and "AllSectors part = Inr (BitField (Inr full))"
    and "Skipped p = BitField (Inr full)"
  shows "partitions_loop pmap (ps1 @ p # ps2) acc = partitions_loop pmap (ps1 @ ps2) acc"
  using assms
  by (induction ps1 arbitrary: acc) (simp_all split: option.splits sum.splits)

lemma new_post_derived_record:
  "new_post ec (Address_String (Address a)) msg = derived_record ec a msg"
  by (rule ext) (simp add: new_post_def derived_record_def)

lemma processPostMsg_records:
  assumes "processPostMsg env ec (Address_String (Address a)) msg c = (Return None, c')"
    and "partitions_from_previous ec c"
  shows "partitions_from_previous ec c' \<and>
         posts c' = posts c @ (if receipt_failed (Receipt msg) then [] else records_of_message env ec a msg)"
proof (cases "receipt_failed (Receipt msg)")
  case True
  with assms show ?thesis by (simp add: processPostMsg_failed_receipt)
next
  case False
  from assms(1) False obtain params where
    dec: "UnmarshalCBOR env (Params (Message msg)) = Inr params"
    by (cases "UnmarshalCBOR env (Params (Message msg))") (auto simp: processPostMsg_def)
  show ?thesis
  proof (cases "partitions c")
    case None
    from assms(1) False dec None obtain pmap sectors where
      ld: "loadPartitions (PrevState ec) (Height (PrevTs ec)) = Inr pmap"
      and lp: "partitions_loop pmap (Partitions params) [] = Return (Inr sectors)"
      and c': "c' = c\<lparr>calls := calls c @ [CallUnmarshalCBOR (Params (Message msg)),
                                   CallLoadPartitions (PrevState ec) (Height (PrevTs ec))],
                    partitions := Some pmap,
                    posts := posts c @ map (new_post ec (Address_String (Address a)) msg) sectors\<rparr>"
      by (auto simp: processPostMsg_def Let_def split: sum.splits go.splits)
    from ld have pp: "previous_partitions ec = pmap" by (simp add: previous_partitions_def)
    from partitions_loop_sectors [OF lp] c' ld pp False dec show ?thesis
      by (simp add: partitions_from_previous_def records_of_message_def records_of_pair_def [abs_def]
          new_post_derived_record map_concat comp_def)
  next
    case (Some pmap)
    from assms(1) False dec Some obtain sectors where
      lp: "partitions_loop pmap (Partitions params) [] = Return (Inr sectors)"
      and c': "c' = c\<lparr>calls := calls c @ [CallUnmarshalCBOR (Params (Message msg))],
                    posts := posts c @ map (new_post ec (Address_String (Address a)) msg) sectors\<rparr>"
      by (auto simp: processPostMsg_def Let_def split: sum.splits go.splits)
    from assms(2) Some have ld: "loadPartitions (PrevState ec) (Height (PrevTs ec)) = Inr pmap"
      by (simp add: partitions_from_previous_def)
    then have pp: "previous_partitions ec = pmap" by (simp add: previous_partitions_def)
    from partitions_loop_sectors [OF lp] c' ld pp False dec Some show ?thesis
      by (simp add: partitions_from_previous_def records_of_message_def records_of_pair_def [abs_def]
          new_post_derived_record map_concat comp_def)
  qed
qed

lemma executed_loop_records:
  "executed_loop env ec a msgs c = (Return (MinerSectorPostList ps, None), c') \<Longrightarrow>
   partitions_from_previous ec c \<Longrightarrow>
   ps = posts c @ concat (map (records_of_message env ec a) (filter (successful a) msgs))"
proof (induction msgs arbitrary: c)
  case Nil
  then show ?case by auto
next
  case (Cons m ms)
  show ?case
  proof (cases "To (Message m) = Address a \<and> Method (Message m) = 5")
    case False
    with Cons show ?thesis by (auto simp: successful_def qualifies_def)
  next
    case True
    obtain r1 c1 where p: "processPostMsg env ec (Address_String (Address a)) m c = (r1, c1)"
      by (cases "processPostMsg env ec (Address_String (Address a)) m c") auto
    with Cons.prems(1) True have r1: "r1 = Return None"
      and rest: "executed_loop env ec a ms c1 = (Return (MinerSectorPostList ps, None), c')"
      by (auto split: go.splits option.splits)
    from processPostMsg_records [OF p [unfolded r1] Cons.prems(2)]
    have inv: "partitions_from_previous ec c1"
      and ps1: "posts c1 = posts c @ (if receipt_failed (Receipt m) then [] else records_of_message env ec a m)"
      by auto
    from Cons.IH [OF rest inv] ps1 True show ?thesis
      by (simp add: successful_def qualifies_def)
  qed
qed

lemma partitions_loop_resolves:
  "partitions_loop pmap ps acc = Return (Inr sectors) \<Longrightarrow> list_all (pair_resolves pmap) ps"
proof (induction ps arbitrary: acc)
  case Nil
  then show ?case by simp
next
  case (Cons p ps)
  from Cons.prems obtain part all proven visited where
    part: "pmap (PoSt_Index p) = Some part" and all: "AllSectors part = Inr all"
    and sub: "SubtractBitField all (Skipped p) = Inr proven"
    and rest: "partitions_loop pmap ps (acc @ visited) = Return (Inr sectors)"
    by (auto split: option.splits sum.splits)
  from SubtractBitField_Inr [OF sub] have "decodes all \<and> decodes (Skipped p)"
    by (auto simp: decodes_def)
  with part all Cons.IH [OF rest] show ?case
    by (simp add: pair_resolves_def)
qed

lemma processPostMsg_resolves:
  assumes "processPostMsg env ec addr msg c = (Return None, c')"
    and "partitions_from_previous ec c" and "\<not> receipt_failed (Receipt msg)"
  shows "message_resolves env ec msg"
proof -
  from assms(1,3) obtain params where
    dec: "UnmarshalCBOR env (Params (Message msg)) = Inr params"
    by (cases "UnmarshalCBOR env (Params (Message msg))") (auto simp: processPostMsg_def)
  from assms(1,3) dec obtain pmap sectors where
    lp: "partitions_loop pmap (Partitions params) [] = Return (Inr sectors)"
    and pm: "partitions c = Some pmap \<or>
             (partitions c = None \<and> loadPartitions (PrevState ec) (Height (PrevTs ec)) = Inr pmap)"
    by (auto simp: processPostMsg_def Let_def split: option.splits sum.splits go.splits)
  from pm assms(2) have "loadPartitions (PrevState ec) (Height (PrevTs ec)) = Inr pmap"
    by (auto simp: partitions_from_previous_def)
  then have "previous_partitions ec = pmap" by (simp add: previous_partitions_def)
  with partitions_loop_resolves [OF lp] dec show ?thesis
    by (simp add: message_resolves_def)
qed

lemma executed_loop_resolves:
  "executed_loop env ec a msgs c = (Return (MinerSectorPostList ps, None), c') \<Longrightarrow>
   partitions_from_previous ec c \<Longrightarrow>
   list_all (message_resolves env ec) (filter (successful a) msgs)"
proof (induction msgs arbitrary: c)
  case Nil
  then show ?case by simp
next
  case (Cons m ms)
  show ?case
  proof (cases "To (Message m) = Address a \<and> Method (Message m) = 5")
    case False
    with Cons show ?thesis by (auto simp: successful_def qualifies_def)
  next
    case True
    obtain r1 c1 where p: "processPostMsg env ec (Address_String (Address a)) m c = (r1, c1)"
      by (cases "processPostMsg env ec (Address_String (Address a)) m c") auto
    with Cons.prems(1) True have r1: "r1 = Return None"
      and rest: "executed_loop env ec a ms c1 = (Return (MinerSectorPostList ps, None), c')"
      by (auto split: go.splits option.splits)
    from processPostMsg_keeps_previous [OF Cons.prems(2) p]
    have inv: "partitions_from_previous ec c1" .
    from Cons.IH [OF rest inv] processPostMsg_resolves [OF p [unfolded r1] Cons.prems(2)] True
    show ?thesis
      by (auto simp: successful_def qualifies_def)
  qed
qed

subsection \<open>Lookups in the previous state\<close>

lemma fill_pmap_map_of: "fill_pmap visits pmap = pmap ++ map_of (rev visits)"
proof (induction visits arbitrary: pmap)
  case Nil
  show ?case by simp
next
  case (Cons v visits)
  obtain idx p where v: "v = (idx, p)" by (cases v)
  have "fill_pmap (v # visits) pmap = fill_pmap visits (pmap(idx \<mapsto> p))"
    by (simp add: v)
  also have "\<dots> = pmap(idx \<mapsto> p) ++ map_of (rev visits)"
    by (rule Cons.IH)
  also have "\<dots> = pmap ++ map_of (rev (v # visits))"
    by (auto simp: v map_add_def fun_eq_iff split: option.splits)
  finally show ?case .
qed

lemma loadPartitions_reads_deadline:
  "loadPartitions state epoch = deadline_partition_map state epoch"
  by (simp add: loadPartitions_def deadline_partition_map_def fill_pmap_map_of Let_def
           split: sum.splits option.splits)

lemma holds_previous_partitions_iff:
  "holds_previous_partitions ec c = partitions_from_previous ec c"
  by (simp add: holds_previous_partitions_def partitions_from_previous_def loadPartitions_reads_deadline
           split: option.splits)

lemma partitions_loop_resolve_pairs:
  "resolve_pairs pmap ps = Some r \<Longrightarrow>
   partitions_loop pmap ps acc = Return (case r of Inl err \<Rightarrow> Inl err | Inr sectors \<Rightarrow> Inr (acc @ sectors))"
proof (induction ps arbitrary: acc r)
  case Nil
  then show ?case by auto
next
  case (Cons p ps)
  from Cons.prems obtain part where part: "pmap (PoSt_Index p) = Some part"
    by (auto simp: resolve_pair_def split: option.splits)
  show ?case
  proof (cases "resolve_pair pmap p")
    case None
    with Cons.prems show ?thesis by simp
  next
    case (Some rp)
    show ?thesis
    proof (cases rp)
      case (Inl err)
      with Some Cons.prems have "r = Inl err" by simp
      with Some Inl part show ?thesis
        by (auto simp: resolve_pair_def split: sum.splits)
    next
      case (Inr proven)
      with Some Cons.prems obtain r' where r': "resolve_pairs pmap ps = Some r'"
        and r: "r = (case r' of Inl err \<Rightarrow> Inl err | Inr further \<Rightarrow> Inr (proven @ further))"
        by (auto split: option.splits sum.splits)
      from Some Inr part have step:
        "partitions_loop pmap (p # ps) acc = partitions_loop pmap ps (acc @ proven)"
        by (auto simp: resolve_pair_def split: sum.splits)
      from Cons.IH [OF r', of "acc @ proven"] step r show ?thesis
        by (cases r') simp_all
    qed
  qed
qed

lemma processPostMsg_against_previous:
  assumes "transaction_against_previous env ec a msg = Some r"
    and "partitions_from_previous ec c"
  shows "fst (processPostMsg env ec (Address_String (Address a)) msg c)
           = Return (case r of Inl err \<Rightarrow> Some err | Inr records \<Rightarrow> None) \<and>
         (\<forall>records. r = Inr records \<longrightarrow>
            posts (snd (processPostMsg env ec (Address_String (Address a)) msg c)) = posts c @ records)"
proof (cases "receipt_failed (Receipt msg)")
  case True
  with assms show ?thesis
    by (auto simp: transaction_against_previous_def processPostMsg_failed_receipt)
next
  case False
  show ?thesis
  proof (cases "UnmarshalCBOR env (Params (Message msg))")
    case (Inl err)
    with assms False show ?thesis
      by (auto simp: transaction_against_previous_def processPostMsg_decode_error)
  next
    case (Inr params)
    show ?thesis
    proof (cases "deadline_partition_map (PrevState ec) (Height (PrevTs ec))")
      case (Inl err)
      with assms(2) have none: "partitions c = None"
        by (cases "partitions c") (simp_all add: partitions_from_previous_def loadPartitions_reads_deadline)
      from assms(1) False Inr Inl have "r = Inl (Errorf ''load partitions'' err)"
        by (simp add: transaction_against_previous_def)
      with False Inr Inl none show ?thesis
        by (simp add: processPostMsg_def Let_def loadPartitions_reads_deadline)
    next
      case pm: (Inr pmap)
      from assms(1) False Inr pm obtain rs where rs: "resolve_pairs pmap (Partitions params) = Some rs"
        and r: "r = (case rs of Inl err \<Rightarrow> Inl err
                              | Inr sectors \<Rightarrow> Inr (map (derived_record ec a msg) sectors))"
        by (auto simp: transaction_against_previous_def split: option.splits sum.splits)
      from partitions_loop_resolve_pairs [OF rs, of "[]"]
      have lp: "partitions_loop pmap (Partitions params) []
                  = Return (case rs of Inl err \<Rightarrow> Inl err | Inr sectors \<Rightarrow> Inr sectors)"
        by (cases rs) simp_all
      have held: "partitions c = None \<or> partitions c = Some pmap"
        using assms(2) pm
        by (cases "partitions c") (simp_all add: partitions_from_previous_def loadPartitions_reads_deadline)
      from held False Inr pm lp r show ?thesis
        by (cases rs)
           (auto simp: processPostMsg_def Let_def loadPartitions_reads_deadline new_post_derived_record)
    qed
  qed
qed

lemma executed_loop_against_previous:
  "transactions_against_previous env ec a msgs = Some r \<Longrightarrow> partitions_from_previous ec c \<Longrightarrow>
   fst (executed_loop env ec a msgs c) =
     Return (case r of Inl err \<Rightarrow> (Nil_Persistable, Some err)
                     | Inr records \<Rightarrow> (MinerSectorPostList (posts c @ records), None))"
proof (induction msgs arbitrary: c r)
  case Nil
  then show ?case by auto
next
  case (Cons m ms)
  show ?case
  proof (cases "qualifies a m")
    case False
    with Cons show ?thesis by (auto simp: qualifies_def)
  next
    case True
    then have q: "To (Message m) = Address a \<and> Method (Message m) = 5" by (simp add: qualifies_def)
    obtain r1 c1 where p: "processPostMsg env ec (Address_String (Address a)) m c = (r1, c1)"
      by (cases "processPostMsg env ec (Address_String (Address a)) m c") auto
    from Cons.prems(1) True obtain t where t: "transaction_against_previous env ec a m = Some t"
      by (auto split: option.splits)
    from processPostMsg_against_previous [OF t Cons.prems(2)] p
    have r1: "r1 = Return (case t of Inl err \<Rightarrow> Some err | Inr records \<Rightarrow> None)"
      and ps: "\<forall>records. t = Inr records \<longrightarrow> posts c1 = posts c @ records"
      by simp_all
    show ?thesis
    proof (cases t)
      case (Inl err)
      with Cons.prems(1) True t have "r = Inl (Errorf ''process post msg'' err)" by simp
      with Inl r1 p q show ?thesis by simp
    next
      case (Inr records)
      with Cons.prems(1) True t obtain r' where r': "transactions_against_previous env ec a ms = Some r'"
        and r: "r = (case r' of Inl err \<Rightarrow> Inl err | Inr further \<Rightarrow> Inr (records @ further))"
        by (auto split: option.splits sum.splits)
      from processPostMsg_keeps_previous [OF Cons.prems(2) p]
      have inv: "partitions_from_previous ec c1" .
      from Cons.IH [OF r' inv] Inr r1 ps p q r show ?thesis
        by (cases r') simp_all
    qed
  qed
qed

subsection \<open>The verified-client map\<close>

lemma bucket_find_set: "bucket_find k (bucket_set k v kvs) = Some v"
  by (induction kvs) auto

lemma node_find_set: "node_find path k (node_set path k v node) = Some v"
proof (induction path arbitrary: node)
  case Nil
  show ?case by (cases node) (simp add: bucket_find_set)
next
  case (Cons i path)
  show ?case by (cases node) (simp add: Cons.IH)
qed

text \<open>
  The configuration matters: an entry written with bit-width 5 is not found when the map
  is read with bit-width 4.
\<close>

lemma hash_path_example5: "hash_path 5 example_hash [255] = [31]"
  by (simp add: hash_path_def example_hash_def bits_of_byte_def index_of_bits_def)

lemma hash_path_example4: "hash_path 4 example_hash [255] = [15, 15]"
  by (simp add: hash_path_def example_hash_def bits_of_byte_def index_of_bits_def)

lemma mismatched_bit_width_misses:
  "hamt_Find 4 example_hash
     (map_root (Map_Put \<lparr>map_root = empty_node, map_bitwidth = 5, map_hash = example_hash\<rparr> [255] 1000))
     [255] = (False, 0)"
  by (simp add: hamt_Find_def Map_Put_def hash_path_example5 hash_path_example4 empty_node_def)

section \<open>The claims\<close>

text \<open>
  C1: a decoded transaction that references a partition index absent from the loaded
  partition map should make the call return an explicit error. The code indexes the map
  and calls \<open>AllSectors\<close> on the result without testing that the key is present: with
  partition 0 loaded and a transaction that names partition 7, the call panics with a nil
  dereference instead of returning an error.
\<close>

theorem absent_partition_panics:
  "fst (Extract (example_env (example_ec True example_state) [example_msg [2] 0]) example_actor)
     = Panic nil_dereference"
  by (simp add: run_defs example_defs)

text \<open>
  C2, as stated: requesting the code identifier of a (type, version) pair that has no
  mapping returns an explicit error and never aborts. It fails: with a table that knows
  the datacap actor only up to version 8, \<open>Code\<close> panics.
\<close>

theorem unmapped_code_panics:
  "Code actors_v8 example_state9 = Panic ''didn't find actor datacap code id for actor version 9''"
  by (simp add: Code_def actors_v8_def ActorKey_def ActorVersion_def format_d_def digit_char_def)

text \<open>
  C2, amended: \<open>Code\<close> has no error result. It returns the identifier that
  \<open>GetActorCodeID\<close> finds for version 9 of the datacap actor, and it panics, with a
  message that names the actor key and the version, when the pair has no mapping.
\<close>

theorem code_returns_or_panics:
  "Code pkg s =
     (if snd (GetActorCodeID pkg (Version9 pkg) (DatacapKey pkg))
      then Return (fst (GetActorCodeID pkg (Version9 pkg) (DatacapKey pkg)))
      else Panic (''didn't find actor '' @ DatacapKey pkg @ '' code id for actor version ''
                    @ format_d (Version9 pkg)))"
  by (simp add: Code_def ActorKey_def ActorVersion_def split: prod.splits)

theorem code_returns_or_panics_witness:
  "Code actors_v9 example_state9 = Return (MkCid ''bafk2datacap9'') \<and>
   Code actors_v8 example_state9 = Panic ''didn't find actor datacap code id for actor version 9''"
  using code_returns_or_panics [of actors_v9 example_state9]
        code_returns_or_panics [of actors_v8 example_state9]
  by (simp add: actors_v8_def actors_v9_def format_d_def digit_char_def)

text \<open>
  C3: when the parameter bytes of a qualifying transaction with a successful receipt fail
  to decode, the call emits no records, whatever the other transactions are; when the
  transactions before it are processed without failure and would have produced records,
  the call returns the decode error, wrapped with the names of the operations, and the nil
  result; and every call in which a decoding fails returns that decode error and the nil
  result.
\<close>

theorem decode_failure_is_fatal:
  assumes ctx: "NewMinerStateExtractionContext env a = Inr ec" "HasPreviousState ec"
    and fetch: "ExecutedAndBlockMessages env (Current a) (Executed a) = Inr (before @ msg # after)"
    and msg: "qualifies a msg" "\<not> receipt_failed (Receipt msg)"
    and bad: "UnmarshalCBOR env (Params (Message msg)) = Inl err"
  shows "(\<forall>ps e. fst (Extract env a) \<noteq> Return (MinerSectorPostList ps, e)) \<and>
         (\<forall>ps. fst (Extract (env\<lparr>ExecutedAndBlockMessages := (\<lambda>current executed. Inr before)\<rparr>) a)
                 = Return (MinerSectorPostList ps, None) \<longrightarrow>
               fst (Extract env a) =
                 Return (Nil_Persistable,
                         Some (Errorf ''process post msg'' (Errorf ''unmarshal post params'' err)))) \<and>
         (\<forall>b e. CallUnmarshalCBOR b \<in> set (snd (Extract env a)) \<and> UnmarshalCBOR env b = Inl e \<longrightarrow>
                fst (Extract env a) =
                  Return (Nil_Persistable,
                          Some (Errorf ''process post msg'' (Errorf ''unmarshal post params'' e))))"
proof -
  have events: "\<forall>b e. CallUnmarshalCBOR b \<in> set (snd (Extract env a)) \<and> UnmarshalCBOR env b = Inl e \<longrightarrow>
                fst (Extract env a) =
                  Return (Nil_Persistable,
                          Some (Errorf ''process post msg'' (Errorf ''unmarshal post params'' e)))"
    using Extract_decode_errors by blast
  obtain r c' where pre: "executed_loop env ec a before (closure0 a) = (r, c')"
    by (cases "executed_loop env ec a before (closure0 a)") auto
  have ex: "fst (Extract env a) = fst (executed_loop env ec a (before @ msg # after) (closure0 a))"
    using Extract_loop [OF ctx fetch] by simp
  have step: "executed_loop env ec a (msg # after) c1 =
      (Return (Nil_Persistable, Some (Errorf ''process post msg'' (Errorf ''unmarshal post params'' err))),
       c1\<lparr>calls := calls c1 @ [CallUnmarshalCBOR (Params (Message msg))]\<rparr>)" for c1
    using msg bad by (simp add: qualifies_def processPostMsg_decode_error)
  from executed_loop_result [OF pre]
  consider (stop) "\<forall>ps. r \<noteq> Return (MinerSectorPostList ps, None)"
      "\<forall>ps e. r \<noteq> Return (MinerSectorPostList ps, e)"
    | (ok) "r = Return (MinerSectorPostList (posts c'), None)"
    by auto
  then show ?thesis
  proof cases
    case stop
    from executed_loop_append_stop [OF pre stop(1)] ex have "fst (Extract env a) = r" by simp
    moreover have "fst (Extract (env\<lparr>ExecutedAndBlockMessages := (\<lambda>current executed. Inr before)\<rparr>) a) = r"
      using Extract_env_msgs [OF ctx] pre by simp
    ultimately show ?thesis using stop events by simp
  next
    case ok
    from executed_loop_append_ok [OF pre [unfolded ok]] ex step events
    show ?thesis by simp
  qed
qed

theorem decode_failure_is_fatal_witness:
  "fst (Extract (example_env (example_ec True example_state) [example_msg [1] 0]) example_actor)
     = Return (MinerSectorPostList [example_post 1, example_post 3], None) \<and>
   fst (Extract (example_env (example_ec True example_state)
                   [example_msg [1] 0, example_msg [9] 0, example_msg [1] 0]) example_actor)
     = Return (Nil_Persistable,
               Some (Errorf ''process post msg''
                      (Errorf ''unmarshal post params'' (New ''cbor input had wrong number of fields''))))"
proof -
  let ?ec = "example_ec True example_state"
  let ?env = "example_env ?ec [example_msg [1] 0, example_msg [9] 0, example_msg [1] 0]"
  have h1: "NewMinerStateExtractionContext ?env example_actor = Inr ?ec"
    by (simp add: example_env_def)
  have h2: "HasPreviousState ?ec"
    by (simp add: example_ec_def)
  have h3: "ExecutedAndBlockMessages ?env (Current example_actor) (Executed example_actor)
              = Inr ([example_msg [1] 0] @ example_msg [9] 0 # [example_msg [1] 0])"
    by (simp add: example_env_def)
  have h4: "qualifies example_actor (example_msg [9] 0)"
    by (simp add: qualifies_def example_msg_def example_actor_def)
  have h5: "\<not> receipt_failed (Receipt (example_msg [9] 0))"
    by (simp add: example_msg_def IsError_def)
  have h6: "UnmarshalCBOR ?env (Params (Message (example_msg [9] 0)))
              = Inl (New ''cbor input had wrong number of fields'')"
    by (simp add: example_env_def example_msg_def example_decoder_def)
  have e: "?env\<lparr>ExecutedAndBlockMessages := (\<lambda>current executed. Inr [example_msg [1] 0])\<rparr>
             = example_env ?ec [example_msg [1] 0]"
    by (simp add: example_env_def)
  have p: "fst (Extract (example_env ?ec [example_msg [1] 0]) example_actor)
             = Return (MinerSectorPostList [example_post 1, example_post 3], None)"
    by (simp add: run_defs example_defs sorted_list_example)
  from decode_failure_is_fatal [OF h1 h2 h3 h4 h5 h6] e p show ?thesis
    by simp
qed

text \<open>
  C4: on an actor with no previous state the call returns the nil result and no error, and
  it makes no call to a collaborator: the executed messages are not fetched.
\<close>

theorem genesis_returns_nil_without_fetching:
  assumes "NewMinerStateExtractionContext env a = Inr ec" and "\<not> HasPreviousState ec"
  shows "Extract env a = (Return (Nil_Persistable, None), [])"
  using assms by (simp add: Extract_def)

theorem genesis_returns_nil_without_fetching_witness:
  "Extract (example_env (example_ec False example_state) [example_msg [1] 0]) example_actor
     = (Return (Nil_Persistable, None), [])"
proof -
  have h1: "NewMinerStateExtractionContext (example_env (example_ec False example_state) [example_msg [1] 0])
              example_actor = Inr (example_ec False example_state)"
    by (simp add: example_env_def)
  have h2: "\<not> HasPreviousState (example_ec False example_state)"
    by (simp add: example_ec_def)
  from genesis_returns_nil_without_fetching [OF h1 h2] show ?thesis .
qed

text \<open>
  C5: a transaction whose receipt is absent or reports failure leaves the shared variables
  as they are and returns no error: no record is appended and its parameters are not
  decoded. The whole call, result and calls made, is the one of the same executed messages
  without that transaction.
\<close>

theorem failed_receipt_contributes_nothing:
  assumes "receipt_failed (Receipt msg)"
  shows "processPostMsg env ec addr msg c = (Return None, c) \<and>
         (ExecutedAndBlockMessages env (Current a) (Executed a) = Inr (before @ msg # after) \<longrightarrow>
          Extract env a = Extract (env\<lparr>ExecutedAndBlockMessages := (\<lambda>current executed. Inr (before @ after))\<rparr>) a)"
  using assms
  by (auto simp: processPostMsg_failed_receipt Extract_def executed_loop_skip executed_loop_env
           split: sum.splits)

theorem failed_receipt_contributes_nothing_witness:
  "processPostMsg (example_env (example_ec True example_state) [example_msg [9] 1])
     (example_ec True example_state) ''f01000'' (example_msg [9] 1) (closure0 example_actor)
     = (Return None, closure0 example_actor) \<and>
   Extract (example_env (example_ec True example_state) [example_msg [9] 1]) example_actor
     = (Return (MinerSectorPostList [], None),
        [CallExecutedAndBlockMessages \<lparr>Height = 100\<rparr> \<lparr>Height = 99\<rparr>])"
proof -
  have h: "receipt_failed (Receipt (example_msg [9] 1))"
    by (simp add: example_msg_def IsError_def)
  have f: "ExecutedAndBlockMessages (example_env (example_ec True example_state) [example_msg [9] 1])
             (Current example_actor) (Executed example_actor) = Inr ([] @ example_msg [9] 1 # [])"
    by (simp add: example_env_def)
  from failed_receipt_contributes_nothing [OF h, of "example_env (example_ec True example_state) [example_msg [9] 1]"
       "example_ec True example_state" "''f01000''" "closure0 example_actor" example_actor "[]" "[]"] f
  show ?thesis
    by (simp add: run_defs example_defs)
qed

text \<open>
  C6: the records of a call that succeeds are, for every qualifying transaction with a
  successful receipt and every (partition index, skipped set) pair of it, in order, one
  record per element of difference(fullSectors, skipped), each with the previous tipset's
  height, the miner's address, the sector and the hash of the transaction. For partition 0
  with the full set {1, 2, 3} and sector 2 skipped, the records are those of sectors 1 and
  3, at the previous tipset's height 99. In such a call every one of these transactions
  resolves: none of its partitions is skipped for want of an entry in the partition map.
\<close>

theorem emitted_records_are_proven_sectors:
  assumes ctx: "NewMinerStateExtractionContext env a = Inr ec"
    and fetch: "ExecutedAndBlockMessages env (Current a) (Executed a) = Inr msgs"
    and ok: "fst (Extract env a) = Return (MinerSectorPostList ps, None)"
  shows "ps = concat (map (records_of_message env ec a) (filter (successful a) msgs)) \<and>
         list_all (message_resolves env ec) (filter (successful a) msgs)"
proof -
  have prev: "HasPreviousState ec"
    using ctx ok by (cases "HasPreviousState ec") (simp_all add: Extract_def)
  obtain c' where run: "executed_loop env ec a msgs (closure0 a) = (Return (MinerSectorPostList ps, None), c')"
    using Extract_loop [OF ctx prev fetch] ok
    by (cases "executed_loop env ec a msgs (closure0 a)") auto
  have start: "partitions_from_previous ec (closure0 a)"
    by (simp add: partitions_from_previous_def closure0_def)
  from executed_loop_records [OF run start] executed_loop_resolves [OF run start] show ?thesis
    by (simp add: closure0_def)
qed

theorem emitted_records_are_proven_sectors_witness:
  "fst (Extract (example_env (example_ec True example_state) [example_msg [1] 0]) example_actor)
     = Return (MinerSectorPostList [example_post 1, example_post 3], None) \<and>
   concat (map (records_of_message (example_env (example_ec True example_state) [example_msg [1] 0])
                  (example_ec True example_state) example_actor)
             (filter (successful example_actor) [example_msg [1] 0]))
     = [\<lparr>Post_Height = 99, MinerID = ''f01000'', SectorID = 1, PostMessageCID = ''bafy2post''\<rparr>,
        \<lparr>Post_Height = 99, MinerID = ''f01000'', SectorID = 3, PostMessageCID = ''bafy2post''\<rparr>]"
proof -
  let ?ec = "example_ec True example_state"
  let ?env = "example_env ?ec [example_msg [1] 0]"
  have h1: "NewMinerStateExtractionContext ?env example_actor = Inr ?ec"
    by (simp add: example_env_def)
  have h2: "ExecutedAndBlockMessages ?env (Current example_actor) (Executed example_actor)
              = Inr [example_msg [1] 0]"
    by (simp add: example_env_def)
  have h3: "fst (Extract ?env example_actor)
              = Return (MinerSectorPostList [example_post 1, example_post 3], None)"
    by (simp add: run_defs example_defs sorted_list_example)
  from emitted_records_are_proven_sectors [OF h1 h2 h3] h3 show ?thesis
    by (simp add: example_post_def)
qed

text \<open>
  C7: within one call the partition map is loaded at most once. Either it is not loaded and
  no parameters were decoded successfully, or the calls of the extraction start with the
  message lookup, the first decoding, which succeeds, and the one loading of the partitions
  from the previous state at the previous tipset's height, and no later call loads them
  again. The map that the closures hold afterwards is the one read from that state at that
  height. And the lookups of every transaction are made in it: the call returns what the
  executed messages give when each transaction is evaluated against the previous state at
  the previous tipset's height, with the partition map read afresh for every transaction,
  wherever that evaluation names only partition indexes that the map has.
\<close>

theorem partitions_loaded_once_from_previous_state:
  "((filter is_load (snd (Extract env a)) = [] \<and>
     (\<forall>b. CallUnmarshalCBOR b \<in> set (snd (Extract env a)) \<longrightarrow> (\<exists>err. UnmarshalCBOR env b = Inl err)))
    \<or> (\<exists>ec b params rest.
          NewMinerStateExtractionContext env a = Inr ec \<and> UnmarshalCBOR env b = Inr params \<and>
          snd (Extract env a) =
            [CallExecutedAndBlockMessages (Current a) (Executed a), CallUnmarshalCBOR b,
             CallLoadPartitions (PrevState ec) (Height (PrevTs ec))] @ rest \<and>
          filter is_load rest = []))
   \<and> holds_previous_partitions ec' (snd (executed_loop env ec' a msgs (closure0 a)))
   \<and> (NewMinerStateExtractionContext env a = Inr ec' \<and> HasPreviousState ec' \<and>
      ExecutedAndBlockMessages env (Current a) (Executed a) = Inr msgs \<and>
      transactions_against_previous env ec' a msgs = Some r
      \<longrightarrow> fst (Extract env a) = Return (result_of r))"
proof (intro conjI)
  let ?once = "(filter is_load (snd (Extract env a)) = [] \<and>
     (\<forall>b. CallUnmarshalCBOR b \<in> set (snd (Extract env a)) \<longrightarrow> (\<exists>err. UnmarshalCBOR env b = Inl err)))
    \<or> (\<exists>ec b params rest.
          NewMinerStateExtractionContext env a = Inr ec \<and> UnmarshalCBOR env b = Inr params \<and>
          snd (Extract env a) =
            [CallExecutedAndBlockMessages (Current a) (Executed a), CallUnmarshalCBOR b,
             CallLoadPartitions (PrevState ec) (Height (PrevTs ec))] @ rest \<and>
          filter is_load rest = [])"
  show ?once
  proof (cases "NewMinerStateExtractionContext env a")
    case (Inl err)
    then show ?thesis by (simp add: Extract_def)
  next
    case (Inr ec)
    show ?thesis
    proof (cases "HasPreviousState ec")
      case False
      with Inr show ?thesis by (simp add: Extract_def)
    next
      case True
      show ?thesis
      proof (cases "ExecutedAndBlockMessages env (Current a) (Executed a)")
        case (Inl err)
        with Inr True show ?thesis by (simp add: Extract_def)
      next
        case fetch: (Inr msgs)
        obtain r c' where run: "executed_loop env ec a msgs (closure0 a) = (r, c')"
          by (cases "executed_loop env ec a msgs (closure0 a)") auto
        have tr: "snd (Extract env a) = calls c'"
          using Extract_loop [OF Inr True fetch] run by simp
        have "partitions (closure0 a) = None" by (simp add: closure0_def)
        from executed_loop_unloaded [OF this run]
        show ?thesis
        proof (elim disjE exE conjE)
          fix rest
          assume "calls c' = calls (closure0 a) @ rest" "rest = []"
          with tr show ?thesis by (simp add: closure0_def)
        next
          fix rest b err
          assume "calls c' = calls (closure0 a) @ rest" "rest = [CallUnmarshalCBOR b]"
            "UnmarshalCBOR env b = Inl err"
          with tr show ?thesis by (simp add: closure0_def)
        next
          fix b params rest
          assume "UnmarshalCBOR env b = Inr params"
            "calls c' = calls (closure0 a) @
               [CallUnmarshalCBOR b, CallLoadPartitions (PrevState ec) (Height (PrevTs ec))] @ rest"
            "filter is_load rest = []"
          with tr Inr show ?thesis by (simp add: closure0_def)
        qed
      qed
    qed
  qed
next
  have "partitions_from_previous ec' (snd (executed_loop env ec' a msgs (closure0 a)))"
    by (rule executed_loop_keeps_previous) (simp add: partitions_from_previous_def closure0_def)
  then show "holds_previous_partitions ec' (snd (executed_loop env ec' a msgs (closure0 a)))"
    by (simp add: holds_previous_partitions_iff)
next
  show "NewMinerStateExtractionContext env a = Inr ec' \<and> HasPreviousState ec' \<and>
      ExecutedAndBlockMessages env (Current a) (Executed a) = Inr msgs \<and>
      transactions_against_previous env ec' a msgs = Some r
      \<longrightarrow> fst (Extract env a) = Return (result_of r)"
  proof (intro impI, elim conjE)
    assume ctx: "NewMinerStateExtractionContext env a = Inr ec'" and prev: "HasPreviousState ec'"
      and fetch: "ExecutedAndBlockMessages env (Current a) (Executed a) = Inr msgs"
      and ref: "transactions_against_previous env ec' a msgs = Some r"
    have start: "partitions_from_previous ec' (closure0 a)"
      by (simp add: partitions_from_previous_def closure0_def)
    from executed_loop_against_previous [OF ref start] Extract_loop [OF ctx prev fetch]
    show "fst (Extract env a) = Return (result_of r)"
      by (cases r) (simp_all add: result_of_def closure0_def)
  qed
qed

theorem partitions_loaded_once_from_previous_state_witness:
  "snd (Extract (example_env (example_ec True example_state)
                   [example_msg [9] 1, example_msg [1] 0, example_msg [3] 0]) example_actor)
     = [CallExecutedAndBlockMessages \<lparr>Height = 100\<rparr> \<lparr>Height = 99\<rparr>,
        CallUnmarshalCBOR [1], CallLoadPartitions example_state 99, CallUnmarshalCBOR [3]] \<and>
   transactions_against_previous
       (example_env (example_ec True example_state)
          [example_msg [9] 1, example_msg [1] 0, example_msg [3] 0])
       (example_ec True example_state) example_actor
       [example_msg [9] 1, example_msg [1] 0, example_msg [3] 0]
     = Some (Inr [example_post 1, example_post 3]) \<and>
   fst (Extract (example_env (example_ec True example_state)
                   [example_msg [9] 1, example_msg [1] 0, example_msg [3] 0]) example_actor)
     = Return (MinerSectorPostList [example_post 1, example_post 3], None)"
proof -
  let ?ec = "example_ec True example_state"
  let ?msgs = "[example_msg [9] 1, example_msg [1] 0, example_msg [3] 0]"
  let ?env = "example_env ?ec ?msgs"
  have t: "snd (Extract ?env example_actor)
     = [CallExecutedAndBlockMessages \<lparr>Height = 100\<rparr> \<lparr>Height = 99\<rparr>,
        CallUnmarshalCBOR [1], CallLoadPartitions example_state 99, CallUnmarshalCBOR [3]]"
    by (simp add: run_defs example_defs sorted_list_example)
  have h1: "NewMinerStateExtractionContext ?env example_actor = Inr ?ec"
    by (simp add: example_env_def)
  have h2: "HasPreviousState ?ec"
    by (simp add: example_ec_def)
  have h3: "ExecutedAndBlockMessages ?env (Current example_actor) (Executed example_actor) = Inr ?msgs"
    by (simp add: example_env_def)
  have h4: "transactions_against_previous ?env ?ec example_actor ?msgs
              = Some (Inr [example_post 1, example_post 3])"
    by (simp add: transaction_against_previous_def deadline_partition_map_def resolve_pair_def
          qualifies_def derived_record_def IsError_def example_defs sorted_list_example)
  from partitions_loaded_once_from_previous_state
         [of ?env example_actor ?ec ?msgs "Inr [example_post 1, example_post 3]"]
       h1 h2 h3 h4 t
  show ?thesis by (simp add: result_of_def)
qed

text \<open>
  C8: in the state that \<open>make9\<close> constructs, the verified-client map opens, and an
  entry inserted through it is found, with the allowance that was inserted, by a lookup
  that uses the bit-width and the hash function the state declares.
\<close>

theorem verified_client_round_trip:
  assumes "make9 cid_of st governor bitwidth = Inr s"
  shows "(case VerifiedClients sha256 s of
            Inl err \<Rightarrow> False
          | Inr m \<Rightarrow>
              hamt_Find (VerifiedClientsMapBitWidth s) (VerifiedClientsMapHashFunction sha256 s)
                (map_root (Map_Put m (AddrKey addr) allowance)) (AddrKey addr) = (True, allowance))"
proof -
  from assms obtain m where m: "VerifiedClients sha256 s = Inr m"
    by (auto simp: make9_def ConstructState_def VerifiedClients_def AsMap_def Let_def)
  then have "map_bitwidth m = VerifiedClientsMapBitWidth s" "map_hash m = sha256"
    by (auto simp: VerifiedClients_def VerifiedClientsMapBitWidth_def AsMap_def split: option.splits)
  with m show ?thesis
    by (simp add: hamt_Find_def Map_Put_def VerifiedClientsMapHashFunction_def node_find_set)
qed

theorem verified_client_round_trip_witness:
  "make9 example_cid_of Map.empty (MkAddress ''f06'') 5 = Inr example_state9 \<and>
   VerifiedClients example_hash example_state9
     = Inr \<lparr>map_root = empty_node, map_bitwidth = 5, map_hash = example_hash\<rparr> \<and>
   hamt_Find 5 example_hash
     (map_root (Map_Put \<lparr>map_root = empty_node, map_bitwidth = 5, map_hash = example_hash\<rparr> [0, 232, 7] 1000))
     [0, 232, 7] = (True, 1000)"
proof -
  have h: "make9 example_cid_of Map.empty (MkAddress ''f06'') 5 = Inr example_state9"
    by (simp add: make9_def ConstructState_def Let_def example_cid_of_def example_state9_def)
  have v: "VerifiedClients example_hash example_state9
     = Inr \<lparr>map_root = empty_node, map_bitwidth = 5, map_hash = example_hash\<rparr>"
    by (simp add: VerifiedClients_def AsMap_def example_state9_def)
  have f: "VerifiedClientsMapHashFunction example_hash example_state9 = example_hash"
    by (simp add: VerifiedClientsMapHashFunction_def)
  have b: "VerifiedClientsMapBitWidth example_state9 = 5"
    by (simp add: VerifiedClientsMapBitWidth_def example_state9_def)
  from verified_client_round_trip [OF h, of example_hash "\<lambda>a. [0, 232, 7]" "MkAddress ''f01234''" 1000]
       h v f b
  show ?thesis by simp
qed

text \<open>
  C9, as stated: a qualifying transaction whose decoded partition list is empty
  contributes no records and no error. The error part fails: the partition map is loaded
  before the list is read, so when such a transaction is the first one decoded and the
  deadline of the previous state cannot be read, the call returns the loading error.
\<close>

theorem empty_partition_list_load_error:
  "UnmarshalCBOR (example_env (example_ec True failing_state) [example_msg [3] 0])
       (Params (Message (example_msg [3] 0))) = Inr \<lparr>Partitions = []\<rparr> \<and>
   fst (Extract (example_env (example_ec True failing_state) [example_msg [3] 0]) example_actor)
     = Return (Nil_Persistable,
               Some (Errorf ''process post msg''
                      (Errorf ''load partitions'' (Errorf ''deadline info'' (New ''no deadline'')))))"
  by (simp add: run_defs example_defs)

text \<open>
  C9, amended: a transaction with a successful receipt whose decoded partition list is
  empty appends no records and returns no error when the partition map is already loaded or
  loads without error; and a partition whose skipped set equals its full sector set adds
  no sector and no error: the loop over the partitions runs as it does without that
  partition.
\<close>

theorem empty_contributions:
  "(\<not> receipt_failed (Receipt msg) \<and> UnmarshalCBOR env (Params (Message msg)) = Inr params \<and>
    Partitions params = [] \<and>
    (partitions c \<noteq> None \<or> (\<exists>pmap. loadPartitions (PrevState ec) (Height (PrevTs ec)) = Inr pmap))
    \<longrightarrow> fst (processPostMsg env ec addr msg c) = Return None \<and>
        posts (snd (processPostMsg env ec addr msg c)) = posts c)
   \<and> (pmap' (PoSt_Index p) = Some part \<and> AllSectors part = Inr (BitField (Inr full)) \<and>
      Skipped p = BitField (Inr full)
      \<longrightarrow> partitions_loop pmap' (ps1 @ p # ps2) acc = partitions_loop pmap' (ps1 @ ps2) acc)"
  by (auto simp: processPostMsg_def Let_def partitions_loop_all_skipped split: option.splits)

theorem empty_contributions_witness:
  "fst (processPostMsg (example_env (example_ec True example_state) [example_msg [3] 0])
          (example_ec True example_state) ''f01000'' (example_msg [3] 0) (closure0 example_actor))
     = Return None \<and>
   posts (snd (processPostMsg (example_env (example_ec True example_state) [example_msg [3] 0])
          (example_ec True example_state) ''f01000'' (example_msg [3] 0) (closure0 example_actor)))
     = [] \<and>
   partitions_loop [0 \<mapsto> example_partition]
     [\<lparr>PoSt_Index = 0, Skipped = BitField (Inr {1, 2, 3})\<rparr>] [] = Return (Inr [])"
proof -
  let ?ec = "example_ec True example_state"
  let ?env = "example_env ?ec [example_msg [3] 0]"
  let ?p = "\<lparr>PoSt_Index = 0, Skipped = BitField (Inr {1, 2, 3})\<rparr>"
  have h1: "\<not> receipt_failed (Receipt (example_msg [3] 0)) \<and>
            UnmarshalCBOR ?env (Params (Message (example_msg [3] 0))) = Inr \<lparr>Partitions = []\<rparr> \<and>
            Partitions \<lparr>Partitions = []\<rparr> = [] \<and>
            (partitions (closure0 example_actor) \<noteq> None \<or>
             (\<exists>pmap. loadPartitions (PrevState ?ec) (Height (PrevTs ?ec)) = Inr pmap))"
    by (simp add: example_defs IsError_def loadPartitions_def)
  have h2: "[0 \<mapsto> example_partition] (PoSt_Index ?p) = Some example_partition \<and>
            AllSectors example_partition = Inr (BitField (Inr {1, 2, 3})) \<and>
            Skipped ?p = BitField (Inr {1, 2, 3})"
    by (simp add: example_partition_def)
  from empty_contributions [of "example_msg [3] 0" ?env "\<lparr>Partitions = []\<rparr>" "closure0 example_actor"
       ?ec "''f01000''" "[0 \<mapsto> example_partition]" ?p example_partition "{1, 2, 3}" "[]" "[]" "[]"]
       h1 h2
  show ?thesis by (simp add: closure0_def)
qed

text \<open>
  C10: when the call returns without error, the result is a record list, which is not the
  nil interface even when it has no element, if the context has a previous state, and it
  is the nil interface if it has none.
\<close>

theorem success_is_not_nil:
  assumes "NewMinerStateExtractionContext env a = Inr ec"
    and "fst (Extract env a) = Return (r, None)"
  shows "(HasPreviousState ec \<longrightarrow> (\<exists>ps. r = MinerSectorPostList ps)) \<and>
         (\<not> HasPreviousState ec \<longrightarrow> r = Nil_Persistable)"
proof (cases "HasPreviousState ec")
  case False
  with assms show ?thesis by (simp add: Extract_def)
next
  case True
  from assms True obtain msgs where
    fetch: "ExecutedAndBlockMessages env (Current a) (Executed a) = Inr msgs"
    by (cases "ExecutedAndBlockMessages env (Current a) (Executed a)") (auto simp: Extract_def)
  obtain r1 c' where run: "executed_loop env ec a msgs (closure0 a) = (r1, c')"
    by (cases "executed_loop env ec a msgs (closure0 a)") auto
  with Extract_loop [OF assms(1) True fetch] assms(2) have "r1 = Return (r, None)" by simp
  with executed_loop_result [OF run] True show ?thesis by auto
qed

theorem success_is_not_nil_witness:
  "fst (Extract (example_env (example_ec True example_state) []) example_actor)
     = Return (MinerSectorPostList [], None) \<and>
   MinerSectorPostList [] \<noteq> Nil_Persistable \<and>
   fst (Extract (example_env (example_ec False example_state) []) example_actor)
     = Return (Nil_Persistable, None)"
proof -
  have t1: "NewMinerStateExtractionContext (example_env (example_ec True example_state) []) example_actor
              = Inr (example_ec True example_state)"
    by (simp add: example_env_def)
  have t2: "fst (Extract (example_env (example_ec True example_state) []) example_actor)
              = Return (MinerSectorPostList [], None)"
    by (simp add: run_defs example_defs)
  have f1: "NewMinerStateExtractionContext (example_env (example_ec False example_state) []) example_actor
              = Inr (example_ec False example_state)"
    by (simp add: example_env_def)
  have f2: "fst (Extract (example_env (example_ec False example_state) []) example_actor)
              = Return (Nil_Persistable, None)"
    by (simp add: run_defs example_defs)
  from success_is_not_nil [OF t1 t2] success_is_not_nil [OF f1 f2] t2 f2 show ?thesis
    by (simp add: example_ec_def)
qed

end
